theory Spec2Isabelle
  imports Main "HOL-Library.Word"
begin

section \<open>JavaScript values\<close>

text \<open>
  The decoded value of a characteristic is a plain JavaScript object. Values are modelled
  by the datatype below: an object is the list of its own enumerable properties in the
  order \<^verbatim>\<open>Object.keys\<close> lists them (keys are distinct in a well-formed object; an array is
  the object of its indices). Numbers are the integers and \<open>NaN\<close>: fractions and
  infinities are not represented, and integer arithmetic is exact.
\<close>

datatype jsval =
    JUndef
  | JNull
  | JBool bool
  | JNum int
  | JNaN
  | JStr string
  | JObj "(string \<times> jsval) list"

type_synonym jsobj = "(string \<times> jsval) list"

text \<open>\<^verbatim>\<open>typeof v === 'object'\<close> holds of objects and of \<^verbatim>\<open>null\<close>.\<close>

fun typeof_object :: "jsval \<Rightarrow> bool" where
  "typeof_object JNull = True"
| "typeof_object (JObj kvs) = True"
| "typeof_object v = False"

text \<open>\<^verbatim>\<open>k in obj\<close>, \<^verbatim>\<open>obj[k]\<close> and \<^verbatim>\<open>obj[k] = v\<close> on an object, for its own properties
  (those inherited from \<^verbatim>\<open>Object.prototype\<close> are not modelled).\<close>

definition has_prop :: "string \<Rightarrow> jsobj \<Rightarrow> bool" where
  "has_prop k kvs = (map_of kvs k \<noteq> None)"

definition get_prop :: "jsobj \<Rightarrow> string \<Rightarrow> jsval" where
  "get_prop kvs k = (case map_of kvs k of None \<Rightarrow> JUndef | Some v \<Rightarrow> v)"

fun set_prop :: "jsobj \<Rightarrow> string \<Rightarrow> jsval \<Rightarrow> jsobj" where
  "set_prop [] k v = [(k, v)]"
| "set_prop ((k', v') # kvs) k v =
     (if k' = k then (k, v) # kvs else (k', v') # set_prop kvs k v)"

subsection \<open>Numbers and strings\<close>

definition digit_char :: "nat \<Rightarrow> char" where
  "digit_char d = ''0123456789abcdef'' ! d"

text \<open>The digits of \<open>n\<close> in radix \<open>r\<close>; the program uses the radices 10 and 16.\<close>

function radix_digits :: "nat \<Rightarrow> nat \<Rightarrow> string" where
  "radix_digits r n =
     (if r < 2 \<or> n < r then [digit_char n]
      else radix_digits r (n div r) @ [digit_char (n mod r)])"
  by pat_completeness auto
termination
  by (relation "measure snd") auto

declare radix_digits.simps [simp del]

text \<open>\<^verbatim>\<open>Number.prototype.toString(radix)\<close> on an integer.\<close>

definition Number_toString :: "nat \<Rightarrow> int \<Rightarrow> string" where
  "Number_toString r n =
     (if n < 0 then CHR ''-'' # radix_digits r (nat (- n)) else radix_digits r (nat n))"

text \<open>The abstract operation \<^verbatim>\<open>ToString\<close>; a plain object prints as \<^verbatim>\<open>[object Object]\<close>.\<close>

fun ToString :: "jsval \<Rightarrow> string" where
  "ToString JUndef = ''undefined''"
| "ToString JNull = ''null''"
| "ToString (JBool b) = (if b then ''true'' else ''false'')"
| "ToString (JNum n) = Number_toString 10 n"
| "ToString JNaN = ''NaN''"
| "ToString (JStr s) = s"
| "ToString (JObj kvs) = ''[object Object]''"

text \<open>
  The abstract operation \<^verbatim>\<open>ToNumber\<close>, \<open>None\<close> standing for \<open>NaN\<close>. The conversion of a
  string is the runtime's \<^verbatim>\<open>StringToNumber\<close>, taken as the parameter \<open>stn\<close>; a plain object
  converts through its string \<^verbatim>\<open>[object Object]\<close> to \<open>NaN\<close>.
\<close>

fun ToNumber :: "(string \<Rightarrow> int option) \<Rightarrow> jsval \<Rightarrow> int option" where
  "ToNumber stn JUndef = None"
| "ToNumber stn JNull = Some 0"
| "ToNumber stn (JBool b) = Some (if b then 1 else 0)"
| "ToNumber stn (JNum n) = Some n"
| "ToNumber stn JNaN = None"
| "ToNumber stn (JStr s) = stn s"
| "ToNumber stn (JObj kvs) = None"

text \<open>\<^verbatim>\<open>v > c\<close> for a number \<open>c\<close>: \<open>v\<close> is converted to a number, and \<open>NaN\<close> compares false.\<close>

definition js_gt :: "(string \<Rightarrow> int option) \<Rightarrow> jsval \<Rightarrow> int \<Rightarrow> bool" where
  "js_gt stn v c = (case ToNumber stn v of None \<Rightarrow> False | Some n \<Rightarrow> c < n)"

text \<open>
  \<^verbatim>\<open>a + b\<close>: objects are first converted to their strings; if either operand is then a
  string the result is the concatenation, otherwise the numeric sum.
\<close>

fun ToPrimitive :: "jsval \<Rightarrow> jsval" where
  "ToPrimitive (JObj kvs) = JStr ''[object Object]''"
| "ToPrimitive v = v"

fun is_JStr :: "jsval \<Rightarrow> bool" where
  "is_JStr (JStr s) = True"
| "is_JStr v = False"

definition js_add :: "(string \<Rightarrow> int option) \<Rightarrow> jsval \<Rightarrow> jsval \<Rightarrow> jsval" where
  "js_add stn a b =
     (let pa = ToPrimitive a; pb = ToPrimitive b in
      if is_JStr pa \<or> is_JStr pb then JStr (ToString pa @ ToString pb)
      else (case (ToNumber stn pa, ToNumber stn pb) of
              (Some x, Some y) \<Rightarrow> JNum (x + y)
            | _ \<Rightarrow> JNaN))"

text \<open>\<^verbatim>\<open>String.prototype.toLocaleLowerCase\<close> on ASCII text (characters are bytes here; the
  letters outside ASCII and the rules of a locale are not modelled).\<close>

definition upper_letters :: string where
  "upper_letters = ''ABCDEFGHIJKLMNOPQRSTUVWXYZ''"

definition lower_letters :: string where
  "lower_letters = ''abcdefghijklmnopqrstuvwxyz''"

definition lower_char :: "char \<Rightarrow> char" where
  "lower_char c = (case map_of (zip upper_letters lower_letters) c of Some l \<Rightarrow> l | None \<Rightarrow> c)"

definition toLocaleLowerCase :: "string \<Rightarrow> string" where
  "toLocaleLowerCase s = map lower_char s"

text \<open>The upper-case form of an identifier, \<^verbatim>\<open>String.prototype.toUpperCase\<close> on ASCII text. The
  program never calls it; it is what a caller may pass.\<close>

definition upper_char :: "char \<Rightarrow> char" where
  "upper_char c = (case map_of (zip lower_letters upper_letters) c of Some l \<Rightarrow> l | None \<Rightarrow> c)"

definition toUpperCase :: "string \<Rightarrow> string" where
  "toUpperCase s = map upper_char s"

section \<open>The device, its transport and the codec\<close>

type_synonym buffer = "8 word list"

text \<open>
  The errors a promise of \<^verbatim>\<open>envsensor-device.js\<close> is rejected with, by message:
  \<open>UnknownCharacteristic\<close> is \<^verbatim>\<open>'Unknown characteristic'\<close>, \<open>Timeout\<close> is \<^verbatim>\<open>'Timeout.'\<close>,
  \<open>UnknownResponseData\<close> is \<^verbatim>\<open>'Unknown Response Data'\<close>, \<open>NoParameterSpecified\<close> is
  \<^verbatim>\<open>'No parameter was specified.'\<close>, \<open>WriteNotSupported\<close> is
  \<^verbatim>\<open>'The characteristic does not support `Write`.'\<close>, \<open>PageOutOfRange\<close> is
  \<^verbatim>\<open>'The page must be an integer in the range of 0 to 2047.'\<close>, \<open>RecordingNotStarted\<close> is
  \<^verbatim>\<open>'The data recording mode has not been started.'\<close>, and \<open>RequestPageFailed f\<close> is
  \<^verbatim>\<open>'Failed to set the request page (updateFlag=f).'\<close>. \<open>TypeError\<close> is the runtime's own
  exception, and \<open>OtherError\<close> an error object handed over by the transport or the codec.
\<close>

datatype error =
    UnknownCharacteristic
  | Timeout
  | UnknownResponseData
  | NoParameterSpecified
  | WriteNotSupported
  | PageOutOfRange
  | RecordingNotStarted
  | RequestPageFailed jsval
  | TypeError
  | OtherError string

text \<open>A characteristic object of the transport, as \<^verbatim>\<open>discoverAllServicesAndCharacteristics\<close>
  lists it; an empty \<open>name\<close> is a missing one.\<close>

record characteristic =
  uuid :: string
  name :: string

text \<open>
  What one call of \<^verbatim>\<open>char.read\<close> or \<^verbatim>\<open>char.write\<close> does with its callback: never invoke
  it (\<open>Stall\<close>), invoke it with an error (\<open>Fail\<close>), or invoke it without one (\<open>Reply\<close>).
  A callback is invoked before the attempt's timer fires or not at all: an answer that
  arrives after the timer has fired depends on the interleaving of the event loop and
  is outside this model.
\<close>

datatype 'a response = Stall | Fail error | Reply 'a

text \<open>What the device does, in order: transport calls, and timers that ran to expiry.\<close>

datatype event =
    TRead string
  | TWrite string buffer bool
  | Timer nat

text \<open>The fields of a \<^verbatim>\<open>Date\<close> object in local time, as its getters return them.\<close>

record date_fields =
  fullYear :: int
  month :: int
  date :: int
  hours :: int
  minutes :: int
  seconds :: int
  timezoneOffset :: int

text \<open>
  The device object and what it calls. \<open>chars\<close> is the table \<^verbatim>\<open>this._chars\<close>
  (properties inherited from \<^verbatim>\<open>Object.prototype\<close> are not modelled). The codec
  \<^verbatim>\<open>envsensor-chars.js\<close> is not part of the sources and is a parameter:
  \<open>parseResponse\<close> returns a fresh parsed object or \<^verbatim>\<open>null\<close>, \<open>createWriteBuffer\<close> returns
  \<^verbatim>\<open>null\<close>, an object with an \<^verbatim>\<open>error\<close> or one with a \<^verbatim>\<open>buffer\<close>. \<open>char_read\<close> and
  \<open>char_write\<close> are the transport primitives acting on the peripheral's state \<open>'s\<close>.
  \<open>StringToNumber\<close> and \<open>Date_local\<close> belong to the runtime: the conversion of a string
  to a number, and the local date of a time value in milliseconds (\<open>None\<close> is an
  invalid date).
\<close>

record 's env =
  chars :: "string \<Rightarrow> characteristic option"
  parseResponse :: "string \<Rightarrow> buffer \<Rightarrow> jsobj option"
  createWriteBuffer :: "string \<Rightarrow> jsval \<Rightarrow> (error + buffer) option"
  char_read :: "characteristic \<Rightarrow> 's \<Rightarrow> buffer response \<times> 's"
  char_write :: "characteristic \<Rightarrow> buffer \<Rightarrow> bool \<Rightarrow> 's \<Rightarrow> unit response \<times> 's"
  StringToNumber :: "string \<Rightarrow> int option"
  Date_local :: "int \<Rightarrow> date_fields option"

record 's world =
  tstate :: 's
  trace :: "event list"

definition emit :: "event \<Rightarrow> 's world \<Rightarrow> 's world" where
  "emit ev w = w\<lparr>trace := trace w @ [ev]\<rparr>"

definition RESPONSE_TIMEOUT_MSEC :: nat where
  "RESPONSE_TIMEOUT_MSEC = 5000"

definition REQUEST_RETRY_MAX :: nat where
  "REQUEST_RETRY_MAX = 3"

section \<open>The request engine\<close>

text \<open>
  \<^verbatim>\<open>readData\<close> of \<^verbatim>\<open>_read\<close>; \<open>n\<close> is the attempt counter before \<^verbatim>\<open>n++\<close>. A stalled call
  lets the timer fire, which starts the next attempt while \<^verbatim>\<open>n < _REQUEST_RETRY_MAX\<close> and
  otherwise calls back with the timeout error; an answer clears the timer.
\<close>

function readData ::
  "'s env \<Rightarrow> string \<Rightarrow> characteristic \<Rightarrow> nat \<Rightarrow> 's world \<Rightarrow> (error + jsobj) \<times> 's world"
where
  "readData E char_uuid ch n w =
     (case char_read E ch (tstate w) of
        (r, s') \<Rightarrow>
          (let w1 = emit (TRead (uuid ch)) (w\<lparr>tstate := s'\<rparr>) in
           case r of
             Stall \<Rightarrow>
               (let w2 = emit (Timer RESPONSE_TIMEOUT_MSEC) w1 in
                if n + 1 < REQUEST_RETRY_MAX then readData E char_uuid ch (n + 1) w2
                else (Inl Timeout, w2))
           | Fail e \<Rightarrow> (Inl e, w1)
           | Reply buf \<Rightarrow>
               (case parseResponse E char_uuid buf of
                  Some parsed \<Rightarrow> (Inr parsed, w1)
                | None \<Rightarrow> (Inl UnknownResponseData, w1))))"
  by pat_completeness auto
termination
  by (relation "measure (\<lambda>(E, char_uuid, ch, n, w). REQUEST_RETRY_MAX - n)") auto

text \<open>The first lines of \<^verbatim>\<open>_read\<close> and of \<^verbatim>\<open>_write\<close>: a string is put in lower case, a
  number is printed in radix 16, anything else is refused.\<close>

fun char_uuid_of :: "jsval \<Rightarrow> string option" where
  "char_uuid_of (JStr s) = Some (toLocaleLowerCase s)"
| "char_uuid_of (JNum n) = Some (Number_toString 16 n)"
| "char_uuid_of JNaN = Some ''NaN''"
| "char_uuid_of v = None"

definition priv_read :: "'s env \<Rightarrow> jsval \<Rightarrow> 's world \<Rightarrow> (error + jsobj) \<times> 's world" where
  "priv_read E char_uuid w =
     (case char_uuid_of char_uuid of
        None \<Rightarrow> (Inl UnknownCharacteristic, w)
      | Some u \<Rightarrow>
          (case chars E u of
             None \<Rightarrow> (Inl UnknownCharacteristic, w)
           | Some ch \<Rightarrow> readData E u ch 0 w))"

text \<open>\<^verbatim>\<open>writeData\<close> of \<^verbatim>\<open>_write\<close>, with the same timer.\<close>

function writeData ::
  "'s env \<Rightarrow> characteristic \<Rightarrow> buffer \<Rightarrow> bool \<Rightarrow> nat \<Rightarrow> 's world \<Rightarrow> (error + unit) \<times> 's world"
where
  "writeData E ch buf without_response n w =
     (case char_write E ch buf without_response (tstate w) of
        (r, s') \<Rightarrow>
          (let w1 = emit (TWrite (uuid ch) buf without_response) (w\<lparr>tstate := s'\<rparr>) in
           case r of
             Stall \<Rightarrow>
               (let w2 = emit (Timer RESPONSE_TIMEOUT_MSEC) w1 in
                if n + 1 < REQUEST_RETRY_MAX then writeData E ch buf without_response (n + 1) w2
                else (Inl Timeout, w2))
           | Fail e \<Rightarrow> (Inl e, w1)
           | Reply u \<Rightarrow> (Inr (), w1)))"
  by pat_completeness auto
termination
  by (relation "measure (\<lambda>(E, ch, buf, wr, n, w). REQUEST_RETRY_MAX - n)") auto

definition priv_write ::
  "'s env \<Rightarrow> jsval \<Rightarrow> jsval \<Rightarrow> bool \<Rightarrow> 's world \<Rightarrow> (error + unit) \<times> 's world"
where
  "priv_write E char_uuid data without_response w =
     (case char_uuid_of char_uuid of
        None \<Rightarrow> (Inl UnknownCharacteristic, w)
      | Some u \<Rightarrow>
          (case chars E u of
             None \<Rightarrow> (Inl UnknownCharacteristic, w)
           | Some ch \<Rightarrow>
               (case createWriteBuffer E u data of
                  None \<Rightarrow> (Inl WriteNotSupported, w)
                | Some (Inl e) \<Rightarrow> (Inl e, w)
                | Some (Inr buf) \<Rightarrow> writeData E ch buf without_response 0 w)))"

subsection \<open>Observing one operation\<close>

text \<open>The events an operation added to the trace, and the transport calls among them.\<close>

definition new_events :: "'s world \<Rightarrow> 's world \<Rightarrow> event list" where
  "new_events w w' = drop (length (trace w)) (trace w')"

fun is_call :: "event \<Rightarrow> bool" where
  "is_call (Timer ms) = False"
| "is_call ev = True"

definition transport_calls :: "event list \<Rightarrow> nat" where
  "transport_calls evs = length (filter is_call evs)"

text \<open>\<open>k\<close> attempts that stalled: each is the call \<open>ev\<close> followed by its timer running out.\<close>

definition stalled :: "nat \<Rightarrow> event \<Rightarrow> event list" where
  "stalled k ev = concat (replicate k [ev, Timer RESPONSE_TIMEOUT_MSEC])"

text \<open>The transport stalls on the next \<open>k\<close> reads (writes) of a characteristic, starting
  from the state \<open>s\<close>; the result is the state after them.\<close>

fun read_stalls :: "'s env \<Rightarrow> characteristic \<Rightarrow> nat \<Rightarrow> 's \<Rightarrow> 's option" where
  "read_stalls E ch 0 s = Some s"
| "read_stalls E ch (Suc k) s =
     (case char_read E ch s of
        (Stall, s') \<Rightarrow> read_stalls E ch k s'
      | (r, s') \<Rightarrow> None)"

fun write_stalls :: "'s env \<Rightarrow> characteristic \<Rightarrow> buffer \<Rightarrow> bool \<Rightarrow> nat \<Rightarrow> 's \<Rightarrow> 's option" where
  "write_stalls E ch buf wr 0 s = Some s"
| "write_stalls E ch buf wr (Suc k) s =
     (case char_write E ch buf wr s of
        (Stall, s') \<Rightarrow> write_stalls E ch buf wr k s'
      | (r, s') \<Rightarrow> None)"

section \<open>Writing a value: merge, then write\<close>

text \<open>
  \<^verbatim>\<open>Object.keys(base)\<close> with the values \<^verbatim>\<open>base[k]\<close>: the properties of an object, the
  characters of a string under their indices, nothing for a number or a boolean, and a
  \<^verbatim>\<open>TypeError\<close> (\<open>None\<close>) for \<^verbatim>\<open>undefined\<close> and \<^verbatim>\<open>null\<close>.
\<close>

fun own_props :: "jsval \<Rightarrow> jsobj option" where
  "own_props JUndef = None"
| "own_props JNull = None"
| "own_props (JObj kvs) = Some kvs"
| "own_props (JStr s) =
     Some (map (\<lambda>i. (Number_toString 10 (int i), JStr [s ! i])) [0..<length s])"
| "own_props v = Some []"

fun is_JObj :: "jsval \<Rightarrow> bool" where
  "is_JObj (JObj kvs) = True"
| "is_JObj v = False"

lemma size_map_of_less:
  "map_of kvs k = Some v \<Longrightarrow> size v < size (JObj kvs)"
  by (induction kvs) (auto split: if_splits)

text \<open>
  \<^verbatim>\<open>overrideObject(base, obj)\<close> of \<^verbatim>\<open>_setValue\<close>, with the counter \<^verbatim>\<open>override_num\<close> passed
  through. \<open>overrideProps\<close> is the \<^verbatim>\<open>forEach\<close> over the keys of \<open>base\<close>: \<open>wr\<close> tells
  whether \<open>base\<close> is an object (the file is in strict mode, where an assignment to a
  property of a string throws), and \<^verbatim>\<open>k in obj\<close> throws unless \<open>obj\<close> is an object. An
  object value of \<open>base\<close> is changed in place, so the changed value stays under its key.
\<close>

function overrideObject :: "jsval \<Rightarrow> jsval \<Rightarrow> nat \<Rightarrow> error + jsval \<times> nat"
  and overrideProps :: "bool \<Rightarrow> jsobj \<Rightarrow> jsval \<Rightarrow> nat \<Rightarrow> error + jsobj \<times> nat"
where
  "overrideObject base obj override_num =
     (case own_props base of
        None \<Rightarrow> Inl TypeError
      | Some props \<Rightarrow>
          (case overrideProps (is_JObj base) props obj override_num of
             Inl e \<Rightarrow> Inl e
           | Inr (props', num') \<Rightarrow> Inr (if is_JObj base then JObj props' else base, num')))"
| "overrideProps wr [] obj override_num = Inr ([], override_num)"
| "overrideProps wr ((k, b) # props) obj override_num =
     (case obj of
        JObj kvs \<Rightarrow>
          (case map_of kvs k of
             None \<Rightarrow>
               (case overrideProps wr props obj override_num of
                  Inl e \<Rightarrow> Inl e
                | Inr (props', num') \<Rightarrow> Inr ((k, b) # props', num'))
           | Some v \<Rightarrow>
               if typeof_object v then
                 (case overrideObject b v override_num of
                    Inl e \<Rightarrow> Inl e
                  | Inr (b', num1) \<Rightarrow>
                      (case overrideProps wr props obj num1 of
                         Inl e \<Rightarrow> Inl e
                       | Inr (props', num') \<Rightarrow> Inr ((k, b') # props', num')))
               else if wr then
                 (case overrideProps wr props obj (override_num + 1) of
                    Inl e \<Rightarrow> Inl e
                  | Inr (props', num') \<Rightarrow> Inr ((k, v) # props', num'))
               else Inl TypeError)
      | v \<Rightarrow> Inl TypeError)"
  by pat_completeness auto
termination
  by (relation "measures
        [\<lambda>x. case x of Inl (base, obj, n) \<Rightarrow> size obj | Inr (wr, props, obj, n) \<Rightarrow> size obj,
         \<lambda>x. case x of Inl a \<Rightarrow> 1 | Inr b \<Rightarrow> 0,
         \<lambda>x. case x of Inl a \<Rightarrow> 0 | Inr (wr, props, obj, n) \<Rightarrow> length props]")
     (auto dest: size_map_of_less)

text \<open>\<^verbatim>\<open>_readValue\<close> and \<^verbatim>\<open>_setValue\<close>. The guard of \<^verbatim>\<open>_setValue\<close> lets through an object
  with at least one key; the override counter starts at 0 for every call.\<close>

definition priv_readValue :: "'s env \<Rightarrow> string \<Rightarrow> 's world \<Rightarrow> (error + jsobj) \<times> 's world" where
  "priv_readValue E char_uuid w = priv_read E (JStr char_uuid) w"

fun params_given :: "jsval \<Rightarrow> bool" where
  "params_given (JObj kvs) = (kvs \<noteq> [])"
| "params_given v = False"

definition priv_setValue :: "'s env \<Rightarrow> string \<Rightarrow> jsval \<Rightarrow> 's world \<Rightarrow> (error + unit) \<times> 's world" where
  "priv_setValue E char_uuid params w =
     (if \<not> params_given params then (Inl NoParameterSpecified, w)
      else
        (case priv_read E (JStr char_uuid) w of
           (Inl e, w1) \<Rightarrow> (Inl e, w1)
         | (Inr res, w1) \<Rightarrow>
             (case overrideObject (JObj res) params 0 of
                Inl e \<Rightarrow> (Inl e, w1)
              | Inr (p, override_num) \<Rightarrow>
                  if override_num = 0 then (Inl NoParameterSpecified, w1)
                  else priv_write E (JStr char_uuid) p False w1)))"

subsection \<open>The merge as it is specified\<close>

text \<open>
  The merge as the specification describes it, without the counter and without the
  exceptions of the runtime, to compare \<open>overrideObject\<close> with. \<open>requested obj k\<close> is the
  value the request \<open>obj\<close> has for the name \<open>k\<close>, if it has one. \<open>spec_merge base obj\<close> is
  the current value \<open>base\<close> with the requested values put in: an object keeps its keys,
  in their order; under a key that the request does not name the value stays; under a
  key that the request names with an object (or \<^verbatim>\<open>null\<close>) the value is merged with that
  object in the same way; under a key that the request names with any other value, that
  value is put. A value that is no object stays as it is. \<open>spec_overrides base obj\<close> is
  the number of values put: the fields of the request, at any depth, that are no objects
  and whose names are keys of the current value at the same place.
\<close>

definition requested :: "jsval \<Rightarrow> string \<Rightarrow> jsval option" where
  "requested obj k = (case obj of JObj ps \<Rightarrow> map_of ps k | v \<Rightarrow> None)"

lemma size_requested_less:
  "requested obj k = Some v \<Longrightarrow> size v < size obj"
  by (cases obj) (auto simp: requested_def dest: size_map_of_less)

function (sequential) spec_merge :: "jsval \<Rightarrow> jsval \<Rightarrow> jsval"
  and spec_merge_props :: "jsobj \<Rightarrow> jsval \<Rightarrow> jsobj"
where
  "spec_merge (JObj kvs) obj = JObj (spec_merge_props kvs obj)"
| "spec_merge b obj = b"
| "spec_merge_props [] obj = []"
| "spec_merge_props ((k, b) # props) obj =
     (case requested obj k of
        None \<Rightarrow> (k, b) # spec_merge_props props obj
      | Some v \<Rightarrow>
          (k, if typeof_object v then spec_merge b v else v) # spec_merge_props props obj)"
  by pat_completeness auto
termination
  by (relation "measures
        [\<lambda>x. case x of Inl (base, obj) \<Rightarrow> size obj | Inr (props, obj) \<Rightarrow> size obj,
         \<lambda>x. case x of Inl a \<Rightarrow> 1 | Inr b \<Rightarrow> 0,
         \<lambda>x. case x of Inl a \<Rightarrow> 0 | Inr (props, obj) \<Rightarrow> length props]")
     (auto dest: size_requested_less)

function (sequential) spec_overrides :: "jsval \<Rightarrow> jsval \<Rightarrow> nat"
  and spec_overrides_props :: "jsobj \<Rightarrow> jsval \<Rightarrow> nat"
where
  "spec_overrides (JObj kvs) obj = spec_overrides_props kvs obj"
| "spec_overrides b obj = 0"
| "spec_overrides_props [] obj = 0"
| "spec_overrides_props ((k, b) # props) obj =
     (case requested obj k of
        None \<Rightarrow> 0
      | Some v \<Rightarrow> if typeof_object v then spec_overrides b v else 1)
     + spec_overrides_props props obj"
  by pat_completeness auto
termination
  by (relation "measures
        [\<lambda>x. case x of Inl (base, obj) \<Rightarrow> size obj | Inr (props, obj) \<Rightarrow> size obj,
         \<lambda>x. case x of Inl a \<Rightarrow> 1 | Inr b \<Rightarrow> 0,
         \<lambda>x. case x of Inl a \<Rightarrow> 0 | Inr (props, obj) \<Rightarrow> length props]")
     (auto dest: size_requested_less)

text \<open>
  Values on which the merge cannot throw: a current value \<open>plain\<close>, made of objects,
  numbers and booleans, and a request with no \<^verbatim>\<open>null\<close> in it.
\<close>

fun plain :: "jsval \<Rightarrow> bool" where
  "plain (JObj kvs) = (\<forall>kv \<in> set kvs. plain (snd kv))"
| "plain (JNum n) = True"
| "plain (JBool b) = True"
| "plain JNaN = True"
| "plain v = False"

fun no_null :: "jsval \<Rightarrow> bool" where
  "no_null (JObj kvs) = (\<forall>kv \<in> set kvs. no_null (snd kv))"
| "no_null JNull = False"
| "no_null v = True"

text \<open>The value found in \<open>v\<close> by going down the names of a path, if the path is there.\<close>

fun lookup_path :: "jsval \<Rightarrow> string list \<Rightarrow> jsval option" where
  "lookup_path v [] = Some v"
| "lookup_path (JObj kvs) (k # ks) =
     (case map_of kvs k of None \<Rightarrow> None | Some v \<Rightarrow> lookup_path v ks)"
| "lookup_path v (k # ks) = None"

subsection \<open>The low level methods used by the paged retrieval\<close>

definition getLatestPage :: "'s env \<Rightarrow> 's world \<Rightarrow> (error + jsobj) \<times> 's world" where
  "getLatestPage E w = priv_readValue E ''3002'' w"

definition setRequestPage :: "'s env \<Rightarrow> jsval \<Rightarrow> 's world \<Rightarrow> (error + unit) \<times> 's world" where
  "setRequestPage E params w = priv_setValue E ''3003'' params w"

definition getResponseFlag :: "'s env \<Rightarrow> 's world \<Rightarrow> (error + jsobj) \<times> 's world" where
  "getResponseFlag E w = priv_readValue E ''3004'' w"

definition getResponseData :: "'s env \<Rightarrow> 's world \<Rightarrow> (error + jsobj) \<times> 's world" where
  "getResponseData E w = priv_readValue E ''3005'' w"

definition getTime :: "'s env \<Rightarrow> 's world \<Rightarrow> (error + jsobj) \<times> 's world" where
  "getTime E w = priv_readValue E ''3031'' w"

definition getAdvSetting :: "'s env \<Rightarrow> 's world \<Rightarrow> (error + jsobj) \<times> 's world" where
  "getAdvSetting E w = priv_readValue E ''3042'' w"

section \<open>The recording status\<close>

text \<open>\<^verbatim>\<open>/^(0|1|7|8)$/.test(mode.toString())\<close>: the method call throws on \<^verbatim>\<open>undefined\<close> and
  \<^verbatim>\<open>null\<close>.\<close>

fun recording_mode :: "jsval \<Rightarrow> error + bool" where
  "recording_mode JUndef = Inl TypeError"
| "recording_mode JNull = Inl TypeError"
| "recording_mode mode = Inr (ToString mode \<in> set [''0'', ''1'', ''7'', ''8''])"

definition getRecordingStatus :: "'s env \<Rightarrow> 's world \<Rightarrow> (error + jsobj) \<times> 's world" where
  "getRecordingStatus E w =
     (case getAdvSetting E w of
        (Inl e, w1) \<Rightarrow> (Inl e, w1)
      | (Inr res1, w1) \<Rightarrow>
          (let data1 = set_prop [] ''beaconMode'' (get_prop res1 ''beaconMode'') in
           case getTime E w1 of
             (Inl e, w2) \<Rightarrow> (Inl e, w2)
           | (Inr res2, w2) \<Rightarrow>
               (let data2 = set_prop data1 ''isRecording'' (JBool False);
                    mode = get_prop data2 ''beaconMode'' in
                case (if js_gt (StringToNumber E) (get_prop res2 ''unixTime'') 0
                      then recording_mode mode else Inr False) of
                  Inl e \<Rightarrow> (Inl e, w2)
                | Inr recording \<Rightarrow>
                    (let data3 = (if recording then set_prop data2 ''isRecording'' (JBool True)
                                  else data2) in
                     case getLatestPage E w2 of
                       (Inl e, w3) \<Rightarrow> (Inl e, w3)
                     | (Inr res3, w3) \<Rightarrow>
                         (let data4 = set_prop data3 ''page'' (get_prop res3 ''page'');
                              data5 = set_prop data4 ''row'' (get_prop res3 ''row'');
                              data6 = set_prop data5 ''measurementInterval''
                                        (get_prop res3 ''measurementInterval'');
                              data7 = set_prop data6 ''unixTime'' (get_prop res3 ''unixTime'')
                          in (Inr data7, w3))))))"

section \<open>The paged retrieval\<close>

text \<open>\<^verbatim>\<open>_getTargetPageAndRow(p)\<close>; \<open>p\<close> is \<open>None\<close> for \<^verbatim>\<open>null\<close> and \<open>Some n\<close> for the object
  \<^verbatim>\<open>{page: n}\<close>. The strict equality holds only of the same number.\<close>

definition getTargetPageAndRow ::
  "'s env \<Rightarrow> int option \<Rightarrow> 's world \<Rightarrow> (error + jsobj) \<times> 's world"
where
  "getTargetPageAndRow E p w =
     (case getLatestPage E w of
        (Inl e, w1) \<Rightarrow> (Inl e, w1)
      | (Inr res, w1) \<Rightarrow>
          (let interval = get_prop res ''measurementInterval'' in
           case p of
             Some n \<Rightarrow>
               (Inr [(''page'', JNum n),
                     (''row'', if get_prop res ''page'' = JNum n then get_prop res ''row''
                               else JNum 12),
                     (''interval'', interval)], w1)
           | None \<Rightarrow>
               (Inr [(''page'', get_prop res ''page''),
                     (''row'', get_prop res ''row''),
                     (''interval'', interval)], w1)))"

text \<open>\<^verbatim>\<open>_wait(msec)\<close>, and every other timer that runs to its end.\<close>

definition wait :: "nat \<Rightarrow> 's world \<Rightarrow> 's world" where
  "wait msec w = emit (Timer msec) w"

text \<open>
  \<^verbatim>\<open>getData\<close> of \<^verbatim>\<open>_getRecordedSensorDataListFromCurrentPage\<close>: the loop reads the
  response data until a row above 12 comes back, putting each row in front of the
  list. Nothing bounds the number of rows the peripheral sends, so the loop need not
  end: \<open>None\<close> is the promise that is never settled.
\<close>

partial_function (option) getData ::
  "'s env \<Rightarrow> jsobj list \<Rightarrow> 's world \<Rightarrow> ((error + jsobj list) \<times> 's world) option"
where [code]:
  "getData E data_list w =
     (case getResponseData E w of
        (Inl e, w1) \<Rightarrow> Some (Inl e, w1)
      | (Inr res, w1) \<Rightarrow>
          if js_gt (StringToNumber E) (get_prop res ''row'') 12
          then Some (Inr data_list, wait 10 w1)
          else getData E (res # data_list) (wait 10 w1))"

definition getRecordedSensorDataListFromCurrentPage ::
  "'s env \<Rightarrow> 's world \<Rightarrow> ((error + jsobj list) \<times> 's world) option"
where
  "getRecordedSensorDataListFromCurrentPage E w = getData E [] w"

text \<open>\<^verbatim>\<open>Array.prototype.join\<close> and \<^verbatim>\<open>slice(-2)\<close>.\<close>

fun join :: "string \<Rightarrow> string list \<Rightarrow> string" where
  "join sep [] = []"
| "join sep [x] = x"
| "join sep (x # y # ys) = x @ sep @ join sep (y # ys)"

definition slice_last2 :: "string \<Rightarrow> string" where
  "slice_last2 s = drop (length s - 2) s"

definition pad2 :: "int \<Rightarrow> string" where
  "pad2 n = slice_last2 (''0'' @ Number_toString 10 n)"

text \<open>
  \<^verbatim>\<open>_getTimeStampFromUnixTime(unix_time)\<close>. The date is that of \<^verbatim>\<open>unix_time * 1000\<close>; on
  an invalid date every getter returns \<open>NaN\<close>, and the code below prints what it prints
  then.
\<close>

definition getTimeStampFromUnixTime :: "'s env \<Rightarrow> jsval \<Rightarrow> string" where
  "getTimeStampFromUnixTime E unix_time =
     (case (case ToNumber (StringToNumber E) unix_time of
              None \<Rightarrow> None
            | Some n \<Rightarrow> Date_local E (n * 1000)) of
        None \<Rightarrow> ''NaN-aN-aNTaN:aN:aN+aN:aN''
      | Some dt \<Rightarrow>
          (let ymd = [Number_toString 10 (fullYear dt), pad2 (month dt + 1), pad2 (date dt)];
               hms = [pad2 (hours dt), pad2 (minutes dt), pad2 (seconds dt)];
               tzo = timezoneOffset dt;
               tz = (if tzo \<noteq> 0 then
                       (let tzh = \<bar>tzo\<bar> div 60;
                            tzm = \<bar>tzo\<bar> mod 60;
                            tzs = (if tzo > 0 then ''-'' else ''+'')
                        in tzs @ pad2 tzh @ '':'' @ pad2 tzm)
                     else ''Z'')
           in join ''-'' ymd @ ''T'' @ join '':'' hms @ tz))"

text \<open>The \<^verbatim>\<open>forEach\<close> of \<^verbatim>\<open>_getRecordedDataListFromPages\<close> that stamps the rows, \<open>time\<close>
  growing by the interval after each row.\<close>

fun stamp_rows :: "'s env \<Rightarrow> jsval \<Rightarrow> jsval \<Rightarrow> jsobj list \<Rightarrow> jsobj list" where
  "stamp_rows E time interval [] = []"
| "stamp_rows E time interval (d # ds) =
     set_prop (set_prop d ''unixTime'' time) ''timeStamp''
       (JStr (getTimeStampFromUnixTime E time))
     # stamp_rows E (js_add (StringToNumber E) time interval) interval ds"

definition getRecordedDataListFromPages ::
  "'s env \<Rightarrow> jsobj \<Rightarrow> 's world \<Rightarrow> ((error + jsobj list) \<times> 's world) option"
where
  "getRecordedDataListFromPages E p w =
     (let page = get_prop p ''page'';
          row = get_prop p ''row'';
          interval = get_prop p ''interval''
      in case setRequestPage E (JObj [(''page'', page), (''row'', row)]) w of
           (Inl e, w1) \<Rightarrow> Some (Inl e, w1)
         | (Inr u, w1) \<Rightarrow>
             (case getResponseFlag E (wait 200 w1) of
                (Inl e, w2) \<Rightarrow> Some (Inl e, w2)
              | (Inr res, w2) \<Rightarrow>
                  if get_prop res ''updateFlag'' \<noteq> JNum 1
                  then Some (Inl (RequestPageFailed (get_prop res ''updateFlag'')), w2)
                  else
                    (let time = get_prop res ''unixTime'' in
                     case getRecordedSensorDataListFromCurrentPage E (wait 100 w2) of
                       None \<Rightarrow> None
                     | Some (Inl e, w3) \<Rightarrow> Some (Inl e, w3)
                     | Some (Inr data_list, w3) \<Rightarrow>
                         Some (Inr (stamp_rows E time interval data_list), w3))))"

text \<open>The validation of \<^verbatim>\<open>params\<close> at the head of \<^verbatim>\<open>getRecordedDataList\<close>: \<open>Inr None\<close> is
  \<^verbatim>\<open>p = null\<close>.\<close>

definition page_param :: "jsval \<Rightarrow> error + int option" where
  "page_param params =
     (case params of
        JObj kvs \<Rightarrow>
          if has_prop ''page'' kvs then
            (case get_prop kvs ''page'' of
               JNum n \<Rightarrow> if n < 0 \<or> n > 2047 then Inl PageOutOfRange else Inr (Some n)
             | v \<Rightarrow> Inl PageOutOfRange)
          else Inr None
      | v \<Rightarrow> Inr None)"

record recorded_data =
  rd_page :: jsval
  rd_measurementInterval :: jsval
  rd_dataList :: "jsobj list"

definition getRecordedDataList ::
  "'s env \<Rightarrow> jsval \<Rightarrow> 's world \<Rightarrow> ((error + recorded_data) \<times> 's world) option"
where
  "getRecordedDataList E params w =
     (case page_param params of
        Inl e \<Rightarrow> Some (Inl e, w)
      | Inr p \<Rightarrow>
          (case getRecordingStatus E w of
             (Inl e, w1) \<Rightarrow> Some (Inl e, w1)
           | (Inr status, w1) \<Rightarrow>
               if get_prop status ''isRecording'' = JBool False
               then Some (Inl RecordingNotStarted, w1)
               else
                 (case getTargetPageAndRow E p w1 of
                    (Inl e, w2) \<Rightarrow> Some (Inl e, w2)
                  | (Inr res, w2) \<Rightarrow>
                      (case getRecordedDataListFromPages E res w2 of
                         None \<Rightarrow> None
                       | Some (Inl e, w3) \<Rightarrow> Some (Inl e, w3)
                       | Some (Inr data_list, w3) \<Rightarrow>
                           Some (Inr \<lparr>rd_page = get_prop res ''page'',
                                      rd_measurementInterval = get_prop res ''interval'',
                                      rd_dataList = data_list\<rparr>, w3)))))"

section \<open>Building the table of characteristics\<close>

text \<open>
  The match of \<^verbatim>\<open>/^0c4c([a-f\d]{4})770046f4aa96d5e974e32a54$/\<close>, with the group \<^verbatim>\<open>$1\<close> as
  its result.
\<close>

definition hex_lower :: "char \<Rightarrow> bool" where
  "hex_lower c = (c \<in> set ''0123456789abcdef'')"

definition BASE_UUID_RE :: "string \<Rightarrow> string option" where
  "BASE_UUID_RE s =
     (if length s = 32 \<and> take 4 s = ''0c4c'' \<and> list_all hex_lower (take 4 (drop 4 s))
         \<and> drop 8 s = ''770046f4aa96d5e974e32a54''
      then Some (take 4 (drop 4 s)) else None)"

definition CHAR_NAMES :: "(string \<times> string) list" where
  "CHAR_NAMES =
     [(''3001'', ''Latest data''), (''3002'', ''Latest page''), (''3003'', ''Request page''),
      (''3004'', ''Response flag''), (''3005'', ''Response data''), (''3006'', ''Event flag''),
      (''3011'', ''Measurement interval''), (''3012'', []), (''3013'', ''Temperature''),
      (''3014'', ''Relative humidity''), (''3015'', ''Ambient light''), (''3016'', ''UV Index''),
      (''3017'', ''Pressure''), (''3018'', ''Sound noise''), (''3019'', ''Discomfort index''),
      (''301a'', ''Heat stroke''), (''3031'', ''Time information''),
      (''3032'', ''LED on duration''), (''3033'', ''Error status''), (''3034'', ''Trigger''),
      (''3041'', ''UUIDs''), (''3042'', ''ADV setting''), (''3053'', ''DFU Revision'')]"

text \<open>The body of \<^verbatim>\<open>char_list.forEach\<close> in \<^verbatim>\<open>_init\<close>: the key under which a characteristic
  is stored, and the characteristic with its name filled in.\<close>

definition init_char :: "characteristic \<Rightarrow> string \<times> characteristic" where
  "init_char c =
     (let key = (case BASE_UUID_RE (uuid c) of Some g \<Rightarrow> g | None \<Rightarrow> uuid c);
          c' = (if name c = [] then
                  (case map_of CHAR_NAMES key of
                     Some nm \<Rightarrow> if nm \<noteq> [] then c\<lparr>name := nm\<rparr> else c
                   | None \<Rightarrow> c)
                else c)
      in (key, c'))"

text \<open>\<^verbatim>\<open>_init\<close>, on the arguments of the discovery callback: the table \<^verbatim>\<open>this._chars\<close>
  (the table of services is built the same way and is not used by what follows).\<close>

definition store_char ::
  "characteristic \<Rightarrow> (string \<Rightarrow> characteristic option) \<Rightarrow> (string \<Rightarrow> characteristic option)"
where
  "store_char c tab = (case init_char c of (key, c') \<Rightarrow> tab(key \<mapsto> c'))"

definition priv_init ::
  "error option \<Rightarrow> characteristic list \<Rightarrow> error + (string \<Rightarrow> characteristic option)"
where
  "priv_init err char_list =
     (case err of
        Some e \<Rightarrow> Inl e
      | None \<Rightarrow> Inr (fold store_char char_list (\<lambda>u. None)))"

section \<open>A scripted peripheral\<close>

text \<open>
  A peripheral for running the definitions: its state is a script of the answers to the
  coming reads and of the answers to the coming writes, taken in order whatever the
  characteristic; an exhausted script stalls. Its codec holds one byte for each field:
  a number, or for the field \<^verbatim>\<open>uuid\<close> of \<^verbatim>\<open>3041\<close>, which is a string, two hexadecimal
  digits.
\<close>

type_synonym script = "buffer response list \<times> unit response list"

definition script_read :: "characteristic \<Rightarrow> script \<Rightarrow> buffer response \<times> script" where
  "script_read ch s = (case fst s of [] \<Rightarrow> (Stall, s) | r # rs \<Rightarrow> (r, (rs, snd s)))"

definition script_write ::
  "characteristic \<Rightarrow> buffer \<Rightarrow> bool \<Rightarrow> script \<Rightarrow> unit response \<times> script"
where
  "script_write ch buf wr s = (case snd s of [] \<Rightarrow> (Stall, s) | r # rs \<Rightarrow> (r, (fst s, rs)))"

definition demo_fields :: "string \<Rightarrow> string list" where
  "demo_fields u =
     (if u = ''3002'' then [''unixTime'', ''measurementInterval'', ''page'', ''row'']
      else if u = ''3003'' then [''page'', ''row'']
      else if u = ''3004'' then [''updateFlag'', ''unixTime'']
      else if u = ''3005'' then [''row'', ''temperature'']
      else if u = ''3011'' then [''measurementInterval'']
      else if u = ''301a'' then [''eventEnabled'']
      else if u = ''3031'' then [''unixTime'']
      else if u = ''3041'' then [''uuid'']
      else if u = ''3042'' then [''beaconMode'', ''txPowerLevel'']
      else [])"

definition demo_value :: "string \<Rightarrow> 8 word \<Rightarrow> jsval" where
  "demo_value f b =
     (if f = ''uuid'' then JStr [digit_char (unat b div 16), digit_char (unat b mod 16)]
      else JNum (uint b))"

definition demo_parse :: "string \<Rightarrow> buffer \<Rightarrow> jsobj option" where
  "demo_parse u buf =
     (if demo_fields u \<noteq> [] \<and> length buf = length (demo_fields u)
      then Some (map (\<lambda>(f, b). (f, demo_value f b)) (zip (demo_fields u) buf)) else None)"

definition hex_digit :: "char \<Rightarrow> nat option" where
  "hex_digit c = map_of (zip ''0123456789abcdef'' [0..<16]) c"

fun demo_byte :: "jsval \<Rightarrow> 8 word option" where
  "demo_byte (JNum n) = (if 0 \<le> n \<and> n < 256 then Some (word_of_int n) else None)"
| "demo_byte (JStr [a, b]) =
     (case (hex_digit a, hex_digit b) of
        (Some x, Some y) \<Rightarrow> Some (of_nat (16 * x + y))
      | other \<Rightarrow> None)"
| "demo_byte v = None"

definition demo_encode :: "string \<Rightarrow> jsval \<Rightarrow> (error + buffer) option" where
  "demo_encode u data =
     (if u \<in> set [''3003'', ''3011'', ''301a'', ''3031'', ''3041'', ''3042''] then
        (case data of
           JObj kvs \<Rightarrow>
             (let bytes = map (\<lambda>k. demo_byte (get_prop kvs k)) (demo_fields u) in
              if list_all (\<lambda>b. b \<noteq> None) bytes then Some (Inr (map the bytes))
              else Some (Inl (OtherError ''out of range'')))
         | v \<Rightarrow> Some (Inl (OtherError ''out of range'')))
      else None)"

text \<open>The local dates of January 1970 nine hours east of Greenwich; the demonstration
  has no calendar for other times.\<close>

definition demo_date :: "int \<Rightarrow> date_fields option" where
  "demo_date ms =
     (let t = ms div 1000 + 32400 in
      if 0 \<le> ms \<and> t < 31 * 86400 then
        Some \<lparr>fullYear = 1970, month = 0, date = 1 + t div 86400,
              hours = t mod 86400 div 3600, minutes = t mod 3600 div 60, seconds = t mod 60,
              timezoneOffset = - 540\<rparr>
      else None)"

definition discovered :: "characteristic list" where
  "discovered =
     map (\<lambda>g. \<lparr>uuid = ''0c4c'' @ g @ ''770046f4aa96d5e974e32a54'', name = []\<rparr>)
       [''3002'', ''3003'', ''3004'', ''3005'', ''3011'', ''301a'', ''3031'', ''3042'', ''3041'']"

definition demo_env :: "script env" where
  "demo_env =
     \<lparr>chars = (case priv_init None discovered of Inr tab \<Rightarrow> tab | Inl e \<Rightarrow> (\<lambda>u. None)),
      parseResponse = demo_parse,
      createWriteBuffer = demo_encode,
      char_read = script_read,
      char_write = script_write,
      StringToNumber = (\<lambda>s. None),
      Date_local = demo_date\<rparr>"

definition start :: "script \<Rightarrow> script world" where
  "start s = \<lparr>tstate = s, trace = []\<rparr>"

text \<open>The calls of \<^verbatim>\<open>char.write\<close> among the events.\<close>

fun is_write :: "event \<Rightarrow> bool" where
  "is_write (TWrite c buf wr) = True"
| "is_write ev = False"

text \<open>The events a read of the characteristic stored under the key \<open>u\<close> can add: calls
  of its \<^verbatim>\<open>read\<close> and the engine's timer.\<close>

definition read_events :: "'s env \<Rightarrow> string \<Rightarrow> event set" where
  "read_events E u =
     (case chars E u of
        None \<Rightarrow> {}
      | Some ch \<Rightarrow> {TRead (uuid ch), Timer RESPONSE_TIMEOUT_MSEC})"

text \<open>The next reads of the response data return the rows \<open>rs\<close>, in this order and none
  of them above 12; the result is the state in which the loop of \<open>getData\<close> goes on.\<close>

fun drains :: "'s env \<Rightarrow> jsobj list \<Rightarrow> 's world \<Rightarrow> 's world option" where
  "drains E [] w = Some w"
| "drains E (r # rs) w =
     (case getResponseData E w of
        (Inl e, w1) \<Rightarrow> None
      | (Inr res, w1) \<Rightarrow>
          if res = r \<and> \<not> js_gt (StringToNumber E) (get_prop res ''row'') 12
          then drains E rs (wait 10 w1) else None)"

text \<open>A script of one full page: the current request page, a ready response flag with
  the unix time 100, the rows 12 down to 0 with a temperature each, and a row 13; one
  write is answered. \<open>demo_page_rows\<close> are the rows 0 to 12 stamped from 100 on, 60 apart.\<close>

definition demo_page_script :: script where
  "demo_page_script =
     ([Reply [0, 0], Reply [1, 100],
       Reply [12, 32], Reply [11, 31], Reply [10, 30], Reply [9, 29], Reply [8, 28],
       Reply [7, 27], Reply [6, 26], Reply [5, 25], Reply [4, 24], Reply [3, 23],
       Reply [2, 22], Reply [1, 21], Reply [0, 20], Reply [13, 33]],
      [Reply ()])"

definition demo_page_rows :: "jsobj list" where
  "demo_page_rows =
     [[(''row'', JNum 0), (''temperature'', JNum 20), (''unixTime'', JNum 100),
       (''timeStamp'', JStr ''1970-01-01T09:01:40+09:00'')],
      [(''row'', JNum 1), (''temperature'', JNum 21), (''unixTime'', JNum 160),
       (''timeStamp'', JStr ''1970-01-01T09:02:40+09:00'')],
      [(''row'', JNum 2), (''temperature'', JNum 22), (''unixTime'', JNum 220),
       (''timeStamp'', JStr ''1970-01-01T09:03:40+09:00'')],
      [(''row'', JNum 3), (''temperature'', JNum 23), (''unixTime'', JNum 280),
       (''timeStamp'', JStr ''1970-01-01T09:04:40+09:00'')],
      [(''row'', JNum 4), (''temperature'', JNum 24), (''unixTime'', JNum 340),
       (''timeStamp'', JStr ''1970-01-01T09:05:40+09:00'')],
      [(''row'', JNum 5), (''temperature'', JNum 25), (''unixTime'', JNum 400),
       (''timeStamp'', JStr ''1970-01-01T09:06:40+09:00'')],
      [(''row'', JNum 6), (''temperature'', JNum 26), (''unixTime'', JNum 460),
       (''timeStamp'', JStr ''1970-01-01T09:07:40+09:00'')],
      [(''row'', JNum 7), (''temperature'', JNum 27), (''unixTime'', JNum 520),
       (''timeStamp'', JStr ''1970-01-01T09:08:40+09:00'')],
      [(''row'', JNum 8), (''temperature'', JNum 28), (''unixTime'', JNum 580),
       (''timeStamp'', JStr ''1970-01-01T09:09:40+09:00'')],
      [(''row'', JNum 9), (''temperature'', JNum 29), (''unixTime'', JNum 640),
       (''timeStamp'', JStr ''1970-01-01T09:10:40+09:00'')],
      [(''row'', JNum 10), (''temperature'', JNum 30), (''unixTime'', JNum 700),
       (''timeStamp'', JStr ''1970-01-01T09:11:40+09:00'')],
      [(''row'', JNum 11), (''temperature'', JNum 31), (''unixTime'', JNum 760),
       (''timeStamp'', JStr ''1970-01-01T09:12:40+09:00'')],
      [(''row'', JNum 12), (''temperature'', JNum 32), (''unixTime'', JNum 820),
       (''timeStamp'', JStr ''1970-01-01T09:13:40+09:00'')]]"

section \<open>Properties of the request engine\<close>

declare readData.simps [simp del] writeData.simps [simp del]

lemma stalled_0: "stalled 0 ev = []"
  by (simp add: stalled_def)

lemma stalled_Suc: "stalled (Suc k) ev = ev # Timer RESPONSE_TIMEOUT_MSEC # stalled k ev"
  by (simp add: stalled_def)

lemma stalled_snoc: "stalled (Suc k) ev = stalled k ev @ [ev, Timer RESPONSE_TIMEOUT_MSEC]"
  by (induction k) (simp_all add: stalled_def)

lemma stalled_3: "stalled 3 ev = stalled 2 ev @ [ev, Timer RESPONSE_TIMEOUT_MSEC]"
  using stalled_snoc[of 2 ev] by simp

lemma transport_calls_append:
  "transport_calls (xs @ ys) = transport_calls xs + transport_calls ys"
  by (simp add: transport_calls_def)

lemma transport_calls_stalled:
  "is_call ev \<Longrightarrow> transport_calls (stalled k ev) = k"
  by (induction k) (simp_all add: stalled_Suc stalled_0 transport_calls_def)

lemma new_events_append: "trace w' = trace w @ evs \<Longrightarrow> new_events w w' = evs"
  by (simp add: new_events_def)

lemma new_events_same: "new_events w w = []"
  by (simp add: new_events_def)

subsection \<open>Reads\<close>

lemma read_stalls_snoc:
  "read_stalls E ch (Suc k) s = Some s3 \<longleftrightarrow>
   (\<exists>s1. read_stalls E ch k s = Some s1 \<and> char_read E ch s1 = (Stall, s3))"
proof (induction k arbitrary: s)
  case 0
  show ?case by (cases "char_read E ch s") (auto split: response.splits)
next
  case (Suc k)
  obtain r s' where rs: "char_read E ch s = (r, s')" by (cases "char_read E ch s")
  show ?case
  proof (cases r)
    case Stall
    have "read_stalls E ch (Suc (Suc k)) s = read_stalls E ch (Suc k) s'"
      using rs Stall by simp
    moreover have "read_stalls E ch (Suc k) s = read_stalls E ch k s'"
      using rs Stall by simp
    ultimately show ?thesis using Suc.IH[of s'] by simp
  next
    case (Fail e)
    then show ?thesis using rs by simp
  next
    case (Reply b)
    then show ?thesis using rs by simp
  qed
qed

lemma readData_stalls:
  "read_stalls E ch k (tstate w) = Some s1 \<Longrightarrow> n + k < REQUEST_RETRY_MAX \<Longrightarrow>
   readData E u ch n w =
   readData E u ch (n + k) (w\<lparr>tstate := s1, trace := trace w @ stalled k (TRead (uuid ch))\<rparr>)"
proof (induction k arbitrary: n w)
  case 0
  then show ?case by (auto simp: stalled_0)
next
  case (Suc k)
  obtain r s' where rs: "char_read E ch (tstate w) = (r, s')" by (cases "char_read E ch (tstate w)")
  with Suc.prems(1) have r: "r = Stall" and st: "read_stalls E ch k s' = Some s1"
    by (auto split: response.splits)
  let ?w2 = "emit (Timer RESPONSE_TIMEOUT_MSEC) (emit (TRead (uuid ch)) (w\<lparr>tstate := s'\<rparr>))"
  have step: "readData E u ch n w = readData E u ch (n + 1) ?w2"
    using rs r Suc.prems(2) by (subst readData.simps) (simp add: Let_def)
  have "readData E u ch (n + 1) ?w2 =
        readData E u ch (n + 1 + k) (?w2\<lparr>tstate := s1, trace := trace ?w2 @ stalled k (TRead (uuid ch))\<rparr>)"
    using st Suc.prems(2) by (intro Suc.IH) (simp_all add: emit_def)
  with step show ?case
    by (simp add: emit_def stalled_Suc)
qed

lemma readData_answer:
  assumes "read_stalls E ch k (tstate w) = Some s1" and "k < REQUEST_RETRY_MAX"
    and "char_read E ch s1 = (r, s2)" and "r \<noteq> Stall"
  shows "readData E u ch 0 w =
     (case r of
        Fail e \<Rightarrow> Inl e
      | Reply buf \<Rightarrow> (case parseResponse E u buf of Some v \<Rightarrow> Inr v | None \<Rightarrow> Inl UnknownResponseData),
      w\<lparr>tstate := s2, trace := trace w @ stalled k (TRead (uuid ch)) @ [TRead (uuid ch)]\<rparr>)"
proof -
  let ?w1 = "w\<lparr>tstate := s1, trace := trace w @ stalled k (TRead (uuid ch))\<rparr>"
  have lt: "0 + k < REQUEST_RETRY_MAX" using assms(2) by simp
  have "readData E u ch 0 w = readData E u ch (0 + k) ?w1"
    by (rule readData_stalls[OF assms(1) lt])
  then have "readData E u ch 0 w = readData E u ch k ?w1"
    by simp
  also have "\<dots> = (case r of
        Fail e \<Rightarrow> Inl e
      | Reply buf \<Rightarrow> (case parseResponse E u buf of Some v \<Rightarrow> Inr v | None \<Rightarrow> Inl UnknownResponseData),
      w\<lparr>tstate := s2, trace := trace w @ stalled k (TRead (uuid ch)) @ [TRead (uuid ch)]\<rparr>)"
    using assms(3,4)
    by (subst readData.simps) (simp add: Let_def emit_def split: response.splits option.splits)
  finally show ?thesis .
qed

lemma readData_timeout:
  assumes "read_stalls E ch REQUEST_RETRY_MAX (tstate w) = Some s3"
  shows "readData E u ch 0 w =
     (Inl Timeout, w\<lparr>tstate := s3, trace := trace w @ stalled REQUEST_RETRY_MAX (TRead (uuid ch))\<rparr>)"
proof -
  have M: "REQUEST_RETRY_MAX = Suc 2" by (simp add: REQUEST_RETRY_MAX_def)
  from assms obtain s1 where s1: "read_stalls E ch 2 (tstate w) = Some s1"
    and last: "char_read E ch s1 = (Stall, s3)"
    unfolding M read_stalls_snoc by blast
  let ?w1 = "w\<lparr>tstate := s1, trace := trace w @ stalled 2 (TRead (uuid ch))\<rparr>"
  have lt: "0 + 2 < REQUEST_RETRY_MAX" by (simp add: M)
  have "readData E u ch 0 w = readData E u ch (0 + 2) ?w1"
    by (rule readData_stalls[OF s1 lt])
  then have "readData E u ch 0 w = readData E u ch 2 ?w1"
    by (simp add: numeral_2_eq_2)
  also have "\<dots> = (Inl Timeout, w\<lparr>tstate := s3, trace := trace w @ stalled 3 (TRead (uuid ch))\<rparr>)"
    using last
    by (subst readData.simps) (simp add: Let_def emit_def M stalled_3)
  finally show ?thesis by (simp add: M)
qed

text \<open>Whatever the transport does, one run of \<open>readData\<close> adds between one and three
  calls of \<^verbatim>\<open>char.read\<close> to the trace, and besides them only its own timer.\<close>

lemma readData_new_events:
  "\<exists>evs. trace (snd (readData E u ch n w)) = trace w @ evs \<and>
         1 \<le> transport_calls evs \<and> transport_calls evs \<le> Suc (REQUEST_RETRY_MAX - Suc n) \<and>
         set evs \<subseteq> {TRead (uuid ch), Timer RESPONSE_TIMEOUT_MSEC}"
proof (induction E u ch n w rule: readData.induct)
  case (1 E u ch n w)
  obtain r s' where rs: "char_read E ch (tstate w) = (r, s')" by (cases "char_read E ch (tstate w)")
  show ?case
  proof (cases r)
    case Stall
    show ?thesis
    proof (cases "n + 1 < REQUEST_RETRY_MAX")
      case True
      let ?w2 = "emit (Timer RESPONSE_TIMEOUT_MSEC) (emit (TRead (uuid ch)) (w\<lparr>tstate := s'\<rparr>))"
      have eq: "readData E u ch n w = readData E u ch (n + 1) ?w2"
        using rs Stall True by (subst readData.simps) (simp add: Let_def)
      from "1.IH"[OF rs[symmetric] refl Stall refl True]
      obtain evs where evs: "trace (snd (readData E u ch (n + 1) ?w2)) = trace ?w2 @ evs"
        "1 \<le> transport_calls evs" "transport_calls evs \<le> Suc (REQUEST_RETRY_MAX - Suc (n + 1))"
        "set evs \<subseteq> {TRead (uuid ch), Timer RESPONSE_TIMEOUT_MSEC}"
        by blast
      show ?thesis
        apply (rule exI[of _ "TRead (uuid ch) # Timer RESPONSE_TIMEOUT_MSEC # evs"])
        using evs True by (simp add: eq emit_def transport_calls_def)
    next
      case False
      have eq: "readData E u ch n w =
          (Inl Timeout, emit (Timer RESPONSE_TIMEOUT_MSEC) (emit (TRead (uuid ch)) (w\<lparr>tstate := s'\<rparr>)))"
        using rs Stall False by (subst readData.simps) (simp add: Let_def)
      show ?thesis
        apply (rule exI[of _ "[TRead (uuid ch), Timer RESPONSE_TIMEOUT_MSEC]"])
        by (simp add: eq emit_def transport_calls_def)
    qed
  next
    case (Fail e)
    have eq: "readData E u ch n w = (Inl e, emit (TRead (uuid ch)) (w\<lparr>tstate := s'\<rparr>))"
      using rs Fail by (subst readData.simps) (simp add: Let_def)
    show ?thesis
      apply (rule exI[of _ "[TRead (uuid ch)]"])
      by (simp add: eq emit_def transport_calls_def)
  next
    case (Reply buf)
    have eq: "snd (readData E u ch n w) = emit (TRead (uuid ch)) (w\<lparr>tstate := s'\<rparr>)"
      using rs Reply by (subst readData.simps) (simp add: Let_def split: option.splits)
    show ?thesis
      apply (rule exI[of _ "[TRead (uuid ch)]"])
      by (simp add: eq emit_def transport_calls_def)
  qed
qed

lemma priv_read_new_events:
  "\<exists>evs. trace (snd (priv_read E i w)) = trace w @ evs \<and>
         transport_calls evs \<le> REQUEST_RETRY_MAX \<and>
         set evs \<subseteq>
           (case char_uuid_of i of
              None \<Rightarrow> {}
            | Some u \<Rightarrow>
                (case chars E u of
                   None \<Rightarrow> {}
                 | Some ch \<Rightarrow> {TRead (uuid ch), Timer RESPONSE_TIMEOUT_MSEC}))"
proof (cases "char_uuid_of i")
  case None
  then show ?thesis by (simp add: priv_read_def transport_calls_def)
next
  case (Some u)
  note u = this
  show ?thesis
  proof (cases "chars E u")
    case None
    then show ?thesis using u by (simp add: priv_read_def transport_calls_def)
  next
    case (Some ch)
    from readData_new_events[of E u ch 0 w]
    obtain evs where evs: "trace (snd (readData E u ch 0 w)) = trace w @ evs"
      "transport_calls evs \<le> Suc (REQUEST_RETRY_MAX - Suc 0)"
      "set evs \<subseteq> {TRead (uuid ch), Timer RESPONSE_TIMEOUT_MSEC}"
      by blast
    show ?thesis
      apply (rule exI[of _ evs])
      using evs Some u by (simp add: priv_read_def REQUEST_RETRY_MAX_def)
  qed
qed

subsection \<open>Writes\<close>

lemma write_stalls_snoc:
  "write_stalls E ch buf wr (Suc k) s = Some s3 \<longleftrightarrow>
   (\<exists>s1. write_stalls E ch buf wr k s = Some s1 \<and> char_write E ch buf wr s1 = (Stall, s3))"
proof (induction k arbitrary: s)
  case 0
  show ?case by (cases "char_write E ch buf wr s") (auto split: response.splits)
next
  case (Suc k)
  obtain r s' where rs: "char_write E ch buf wr s = (r, s')" by (cases "char_write E ch buf wr s")
  show ?case
  proof (cases r)
    case Stall
    have "write_stalls E ch buf wr (Suc (Suc k)) s = write_stalls E ch buf wr (Suc k) s'"
      using rs Stall by simp
    moreover have "write_stalls E ch buf wr (Suc k) s = write_stalls E ch buf wr k s'"
      using rs Stall by simp
    ultimately show ?thesis using Suc.IH[of s'] by simp
  next
    case (Fail e)
    then show ?thesis using rs by simp
  next
    case (Reply b)
    then show ?thesis using rs by simp
  qed
qed

lemma writeData_stalls:
  "write_stalls E ch buf wr k (tstate w) = Some s1 \<Longrightarrow> n + k < REQUEST_RETRY_MAX \<Longrightarrow>
   writeData E ch buf wr n w =
   writeData E ch buf wr (n + k)
     (w\<lparr>tstate := s1, trace := trace w @ stalled k (TWrite (uuid ch) buf wr)\<rparr>)"
proof (induction k arbitrary: n w)
  case 0
  then show ?case by (auto simp: stalled_0)
next
  case (Suc k)
  obtain r s' where rs: "char_write E ch buf wr (tstate w) = (r, s')"
    by (cases "char_write E ch buf wr (tstate w)")
  with Suc.prems(1) have r: "r = Stall" and st: "write_stalls E ch buf wr k s' = Some s1"
    by (auto split: response.splits)
  let ?w2 = "emit (Timer RESPONSE_TIMEOUT_MSEC) (emit (TWrite (uuid ch) buf wr) (w\<lparr>tstate := s'\<rparr>))"
  have step: "writeData E ch buf wr n w = writeData E ch buf wr (n + 1) ?w2"
    using rs r Suc.prems(2) by (subst writeData.simps) (simp add: Let_def)
  have "writeData E ch buf wr (n + 1) ?w2 =
        writeData E ch buf wr (n + 1 + k)
          (?w2\<lparr>tstate := s1, trace := trace ?w2 @ stalled k (TWrite (uuid ch) buf wr)\<rparr>)"
    using st Suc.prems(2) by (intro Suc.IH) (simp_all add: emit_def)
  with step show ?case
    by (simp add: emit_def stalled_Suc)
qed

lemma writeData_answer:
  assumes "write_stalls E ch buf wr k (tstate w) = Some s1" and "k < REQUEST_RETRY_MAX"
    and "char_write E ch buf wr s1 = (r, s2)" and "r \<noteq> Stall"
  shows "writeData E ch buf wr 0 w =
     (case r of Fail e \<Rightarrow> Inl e | Reply x \<Rightarrow> Inr (),
      w\<lparr>tstate := s2,
        trace := trace w @ stalled k (TWrite (uuid ch) buf wr) @ [TWrite (uuid ch) buf wr]\<rparr>)"
proof -
  let ?w1 = "w\<lparr>tstate := s1, trace := trace w @ stalled k (TWrite (uuid ch) buf wr)\<rparr>"
  have lt: "0 + k < REQUEST_RETRY_MAX" using assms(2) by simp
  have "writeData E ch buf wr 0 w = writeData E ch buf wr (0 + k) ?w1"
    by (rule writeData_stalls[OF assms(1) lt])
  then have "writeData E ch buf wr 0 w = writeData E ch buf wr k ?w1"
    by simp
  also have "\<dots> = (case r of Fail e \<Rightarrow> Inl e | Reply x \<Rightarrow> Inr (),
      w\<lparr>tstate := s2,
        trace := trace w @ stalled k (TWrite (uuid ch) buf wr) @ [TWrite (uuid ch) buf wr]\<rparr>)"
    using assms(3,4)
    by (subst writeData.simps) (simp add: Let_def emit_def split: response.splits)
  finally show ?thesis .
qed

lemma writeData_timeout:
  assumes "write_stalls E ch buf wr REQUEST_RETRY_MAX (tstate w) = Some s3"
  shows "writeData E ch buf wr 0 w =
     (Inl Timeout,
      w\<lparr>tstate := s3, trace := trace w @ stalled REQUEST_RETRY_MAX (TWrite (uuid ch) buf wr)\<rparr>)"
proof -
  have M: "REQUEST_RETRY_MAX = Suc 2" by (simp add: REQUEST_RETRY_MAX_def)
  from assms obtain s1 where s1: "write_stalls E ch buf wr 2 (tstate w) = Some s1"
    and last: "char_write E ch buf wr s1 = (Stall, s3)"
    unfolding M write_stalls_snoc by blast
  let ?w1 = "w\<lparr>tstate := s1, trace := trace w @ stalled 2 (TWrite (uuid ch) buf wr)\<rparr>"
  have lt: "0 + 2 < REQUEST_RETRY_MAX" by (simp add: M)
  have "writeData E ch buf wr 0 w = writeData E ch buf wr (0 + 2) ?w1"
    by (rule writeData_stalls[OF s1 lt])
  then have "writeData E ch buf wr 0 w = writeData E ch buf wr 2 ?w1"
    by (simp add: numeral_2_eq_2)
  also have "\<dots> = (Inl Timeout,
      w\<lparr>tstate := s3, trace := trace w @ stalled 3 (TWrite (uuid ch) buf wr)\<rparr>)"
    using last
    by (subst writeData.simps) (simp add: Let_def emit_def M stalled_3)
  finally show ?thesis by (simp add: M)
qed

lemma writeData_new_events:
  "\<exists>evs. trace (snd (writeData E ch buf wr n w)) = trace w @ evs \<and>
         1 \<le> transport_calls evs \<and> transport_calls evs \<le> Suc (REQUEST_RETRY_MAX - Suc n) \<and>
         set evs \<subseteq> {TWrite (uuid ch) buf wr, Timer RESPONSE_TIMEOUT_MSEC}"
proof (induction E ch buf wr n w rule: writeData.induct)
  case (1 E ch buf wr n w)
  obtain r s' where rs: "char_write E ch buf wr (tstate w) = (r, s')"
    by (cases "char_write E ch buf wr (tstate w)")
  let ?ev = "TWrite (uuid ch) buf wr"
  show ?case
  proof (cases r)
    case Stall
    show ?thesis
    proof (cases "n + 1 < REQUEST_RETRY_MAX")
      case True
      let ?w2 = "emit (Timer RESPONSE_TIMEOUT_MSEC) (emit ?ev (w\<lparr>tstate := s'\<rparr>))"
      have eq: "writeData E ch buf wr n w = writeData E ch buf wr (n + 1) ?w2"
        using rs Stall True by (subst writeData.simps) (simp add: Let_def)
      from "1.IH"[OF rs[symmetric] refl Stall refl True]
      obtain evs where evs: "trace (snd (writeData E ch buf wr (n + 1) ?w2)) = trace ?w2 @ evs"
        "1 \<le> transport_calls evs" "transport_calls evs \<le> Suc (REQUEST_RETRY_MAX - Suc (n + 1))"
        "set evs \<subseteq> {?ev, Timer RESPONSE_TIMEOUT_MSEC}"
        by blast
      show ?thesis
        apply (rule exI[of _ "?ev # Timer RESPONSE_TIMEOUT_MSEC # evs"])
        using evs True by (simp add: eq emit_def transport_calls_def)
    next
      case False
      have eq: "writeData E ch buf wr n w =
          (Inl Timeout, emit (Timer RESPONSE_TIMEOUT_MSEC) (emit ?ev (w\<lparr>tstate := s'\<rparr>)))"
        using rs Stall False by (subst writeData.simps) (simp add: Let_def)
      show ?thesis
        apply (rule exI[of _ "[?ev, Timer RESPONSE_TIMEOUT_MSEC]"])
        by (simp add: eq emit_def transport_calls_def)
    qed
  next
    case (Fail e)
    have eq: "writeData E ch buf wr n w = (Inl e, emit ?ev (w\<lparr>tstate := s'\<rparr>))"
      using rs Fail by (subst writeData.simps) (simp add: Let_def)
    show ?thesis
      apply (rule exI[of _ "[?ev]"])
      by (simp add: eq emit_def transport_calls_def)
  next
    case (Reply x)
    have eq: "snd (writeData E ch buf wr n w) = emit ?ev (w\<lparr>tstate := s'\<rparr>)"
      using rs Reply by (subst writeData.simps) (simp add: Let_def)
    show ?thesis
      apply (rule exI[of _ "[?ev]"])
      by (simp add: eq emit_def transport_calls_def)
  qed
qed

lemma priv_write_calls:
  "transport_calls (new_events w (snd (priv_write E i data wr w))) \<le> REQUEST_RETRY_MAX"
proof -
  have zero: "transport_calls (new_events w w) \<le> REQUEST_RETRY_MAX"
    by (simp add: new_events_same transport_calls_def)
  show ?thesis
  proof (cases "char_uuid_of i")
    case None
    then show ?thesis using zero by (simp add: priv_write_def)
  next
    case (Some u)
    note u = this
    show ?thesis
    proof (cases "chars E u")
      case None
      then show ?thesis using zero u by (simp add: priv_write_def)
    next
      case (Some ch)
      note ch = this
      show ?thesis
      proof (cases "createWriteBuffer E u data")
        case None
        then show ?thesis using zero u ch by (simp add: priv_write_def)
      next
        case (Some res)
        show ?thesis
        proof (cases res)
          case (Inl e)
          then show ?thesis using zero u ch Some by (simp add: priv_write_def)
        next
          case (Inr buf)
          from writeData_new_events[of E ch buf wr 0 w]
          obtain evs where evs: "trace (snd (writeData E ch buf wr 0 w)) = trace w @ evs"
            "transport_calls evs \<le> Suc (REQUEST_RETRY_MAX - Suc 0)"
            by blast
          have "new_events w (snd (writeData E ch buf wr 0 w)) = evs"
            by (rule new_events_append[OF evs(1)])
          then show ?thesis
            using evs(2) u ch Some Inr by (simp add: priv_write_def REQUEST_RETRY_MAX_def)
        qed
      qed
    qed
  qed
qed

lemma priv_read_calls:
  "transport_calls (new_events w (snd (priv_read E i w))) \<le> REQUEST_RETRY_MAX"
proof -
  from priv_read_new_events[of E i w]
  obtain evs where evs: "trace (snd (priv_read E i w)) = trace w @ evs"
    "transport_calls evs \<le> REQUEST_RETRY_MAX"
    by blast
  have "new_events w (snd (priv_read E i w)) = evs"
    by (rule new_events_append[OF evs(1)])
  then show ?thesis using evs(2) by simp
qed

subsection \<open>The demonstration peripheral\<close>

lemma demo_chars:
  "chars demo_env ''3002'' = Some \<lparr>uuid = ''0c4c3002770046f4aa96d5e974e32a54'', name = ''Latest page''\<rparr>"
  "chars demo_env ''3003'' = Some \<lparr>uuid = ''0c4c3003770046f4aa96d5e974e32a54'', name = ''Request page''\<rparr>"
  "chars demo_env ''3004'' = Some \<lparr>uuid = ''0c4c3004770046f4aa96d5e974e32a54'', name = ''Response flag''\<rparr>"
  "chars demo_env ''3005'' = Some \<lparr>uuid = ''0c4c3005770046f4aa96d5e974e32a54'', name = ''Response data''\<rparr>"
  "chars demo_env ''3011'' = Some \<lparr>uuid = ''0c4c3011770046f4aa96d5e974e32a54'', name = ''Measurement interval''\<rparr>"
  "chars demo_env ''301a'' = Some \<lparr>uuid = ''0c4c301a770046f4aa96d5e974e32a54'', name = ''Heat stroke''\<rparr>"
  "chars demo_env ''3031'' = Some \<lparr>uuid = ''0c4c3031770046f4aa96d5e974e32a54'', name = ''Time information''\<rparr>"
  "chars demo_env ''3042'' = Some \<lparr>uuid = ''0c4c3042770046f4aa96d5e974e32a54'', name = ''ADV setting''\<rparr>"
  "chars demo_env ''3041'' = Some \<lparr>uuid = ''0c4c3041770046f4aa96d5e974e32a54'', name = ''UUIDs''\<rparr>"
  by code_simp+

text \<open>
  C1. Every read and every write calls the transport primitive at most
  \<open>REQUEST_RETRY_MAX = 3\<close> times, each call raced against the timer of
  \<open>RESPONSE_TIMEOUT_MSEC = 5000\<close> ms. When the transport stalls on the first \<open>k < 3\<close>
  calls and then answers, the operation succeeds after exactly \<open>k + 1\<close> calls, each of the
  stalled ones followed by its timer running out; when the transport stalls on three
  calls in a row, the operation fails with the timeout error after exactly three calls.
\<close>

theorem engine_attempts:
  assumes "char_uuid_of i = Some u" and "chars E u = Some ch"
  shows "REQUEST_RETRY_MAX = 3 \<and> RESPONSE_TIMEOUT_MSEC = 5000
    \<and> transport_calls (new_events w (snd (priv_read E i w))) \<le> REQUEST_RETRY_MAX
    \<and> transport_calls (new_events w (snd (priv_write E i data wr w))) \<le> REQUEST_RETRY_MAX
    \<and> (\<forall>k s1 s2 buf v.
          k < REQUEST_RETRY_MAX \<and> read_stalls E ch k (tstate w) = Some s1
          \<and> char_read E ch s1 = (Reply buf, s2) \<and> parseResponse E u buf = Some v
          \<longrightarrow> fst (priv_read E i w) = Inr v
              \<and> new_events w (snd (priv_read E i w))
                  = stalled k (TRead (uuid ch)) @ [TRead (uuid ch)]
              \<and> transport_calls (new_events w (snd (priv_read E i w))) = k + 1)
    \<and> (\<forall>s3.
          read_stalls E ch REQUEST_RETRY_MAX (tstate w) = Some s3
          \<longrightarrow> fst (priv_read E i w) = Inl Timeout
              \<and> new_events w (snd (priv_read E i w))
                  = stalled REQUEST_RETRY_MAX (TRead (uuid ch))
              \<and> transport_calls (new_events w (snd (priv_read E i w))) = REQUEST_RETRY_MAX)
    \<and> (\<forall>k s1 s2 buf.
          createWriteBuffer E u data = Some (Inr buf)
          \<and> k < REQUEST_RETRY_MAX \<and> write_stalls E ch buf wr k (tstate w) = Some s1
          \<and> char_write E ch buf wr s1 = (Reply (), s2)
          \<longrightarrow> fst (priv_write E i data wr w) = Inr ()
              \<and> new_events w (snd (priv_write E i data wr w))
                  = stalled k (TWrite (uuid ch) buf wr) @ [TWrite (uuid ch) buf wr]
              \<and> transport_calls (new_events w (snd (priv_write E i data wr w))) = k + 1)
    \<and> (\<forall>s3 buf.
          createWriteBuffer E u data = Some (Inr buf)
          \<and> write_stalls E ch buf wr REQUEST_RETRY_MAX (tstate w) = Some s3
          \<longrightarrow> fst (priv_write E i data wr w) = Inl Timeout
              \<and> new_events w (snd (priv_write E i data wr w))
                  = stalled REQUEST_RETRY_MAX (TWrite (uuid ch) buf wr)
              \<and> transport_calls (new_events w (snd (priv_write E i data wr w)))
                  = REQUEST_RETRY_MAX)"
proof -
  have rd: "priv_read E i w = readData E u ch 0 w"
    using assms by (simp add: priv_read_def)
  have wr_eq: "createWriteBuffer E u data = Some (Inr buf) \<Longrightarrow>
            priv_write E i data wr w = writeData E ch buf wr 0 w" for buf
    using assms by (simp add: priv_write_def)
  have cst: "REQUEST_RETRY_MAX = 3 \<and> RESPONSE_TIMEOUT_MSEC = 5000"
    by (simp add: REQUEST_RETRY_MAX_def RESPONSE_TIMEOUT_MSEC_def)
  have read_ok: "fst (priv_read E i w) = Inr v
      \<and> new_events w (snd (priv_read E i w)) = stalled k (TRead (uuid ch)) @ [TRead (uuid ch)]
      \<and> transport_calls (new_events w (snd (priv_read E i w))) = k + 1"
    if "k < REQUEST_RETRY_MAX" "read_stalls E ch k (tstate w) = Some s1"
      "char_read E ch s1 = (Reply buf, s2)" "parseResponse E u buf = Some v"
    for k s1 s2 buf v
  proof -
    have "readData E u ch 0 w =
        (Inr v, w\<lparr>tstate := s2, trace := trace w @ stalled k (TRead (uuid ch)) @ [TRead (uuid ch)]\<rparr>)"
      using readData_answer[OF that(2) that(1) that(3), of u] that(4) by simp
    then show ?thesis
      by (simp add: rd new_events_def transport_calls_append transport_calls_stalled)
        (simp add: transport_calls_def)
  qed
  have read_timeout: "fst (priv_read E i w) = Inl Timeout
      \<and> new_events w (snd (priv_read E i w)) = stalled REQUEST_RETRY_MAX (TRead (uuid ch))
      \<and> transport_calls (new_events w (snd (priv_read E i w))) = REQUEST_RETRY_MAX"
    if "read_stalls E ch REQUEST_RETRY_MAX (tstate w) = Some s3" for s3
    using readData_timeout[OF that, of u]
    by (simp add: rd new_events_def transport_calls_stalled)
  have write_ok: "fst (priv_write E i data wr w) = Inr ()
      \<and> new_events w (snd (priv_write E i data wr w))
          = stalled k (TWrite (uuid ch) buf wr) @ [TWrite (uuid ch) buf wr]
      \<and> transport_calls (new_events w (snd (priv_write E i data wr w))) = k + 1"
    if "createWriteBuffer E u data = Some (Inr buf)" "k < REQUEST_RETRY_MAX"
      "write_stalls E ch buf wr k (tstate w) = Some s1" "char_write E ch buf wr s1 = (Reply (), s2)"
    for k s1 s2 buf
  proof -
    have "writeData E ch buf wr 0 w =
        (Inr (), w\<lparr>tstate := s2,
           trace := trace w @ stalled k (TWrite (uuid ch) buf wr) @ [TWrite (uuid ch) buf wr]\<rparr>)"
      using writeData_answer[OF that(3) that(2) that(4)] by simp
    then show ?thesis
      by (simp add: wr_eq[OF that(1)] new_events_def transport_calls_append transport_calls_stalled)
        (simp add: transport_calls_def)
  qed
  have write_timeout: "fst (priv_write E i data wr w) = Inl Timeout
      \<and> new_events w (snd (priv_write E i data wr w))
          = stalled REQUEST_RETRY_MAX (TWrite (uuid ch) buf wr)
      \<and> transport_calls (new_events w (snd (priv_write E i data wr w))) = REQUEST_RETRY_MAX"
    if "createWriteBuffer E u data = Some (Inr buf)"
      "write_stalls E ch buf wr REQUEST_RETRY_MAX (tstate w) = Some s3" for s3 buf
    using writeData_timeout[OF that(2)]
    by (simp add: wr_eq[OF that(1)] new_events_def transport_calls_stalled)
  show ?thesis
    using cst priv_read_calls[of w E i] priv_write_calls[of w E i data wr]
      read_ok read_timeout write_ok write_timeout
    by blast
qed

theorem engine_attempts_witness:
  "fst (priv_read demo_env (JStr ''3011'') (start ([Stall, Stall, Reply [60]], [])))
     = Inr [(''measurementInterval'', JNum 60)]
   \<and> transport_calls (new_events (start ([Stall, Stall, Reply [60]], []))
        (snd (priv_read demo_env (JStr ''3011'') (start ([Stall, Stall, Reply [60]], []))))) = 3
   \<and> fst (priv_read demo_env (JStr ''3011'') (start ([], []))) = Inl Timeout
   \<and> transport_calls (new_events (start ([], []))
        (snd (priv_read demo_env (JStr ''3011'') (start ([], []))))) = 3
   \<and> fst (priv_write demo_env (JStr ''3011'') (JObj [(''measurementInterval'', JNum 120)]) False
        (start ([], [Stall, Reply ()]))) = Inr ()
   \<and> transport_calls (new_events (start ([], [Stall, Reply ()]))
        (snd (priv_write demo_env (JStr ''3011'') (JObj [(''measurementInterval'', JNum 120)]) False
          (start ([], [Stall, Reply ()]))))) = 2
   \<and> fst (priv_write demo_env (JStr ''3011'') (JObj [(''measurementInterval'', JNum 120)]) False
        (start ([], []))) = Inl Timeout"
proof -
  let ?ch = "\<lparr>uuid = ''0c4c3011770046f4aa96d5e974e32a54'', name = ''Measurement interval''\<rparr>"
  let ?data = "JObj [(''measurementInterval'', JNum 120)]"
  have u: "char_uuid_of (JStr ''3011'') = Some ''3011''"
    by code_simp
  note T = engine_attempts[OF u demo_chars(5)]
  have r1: "(2::nat) < REQUEST_RETRY_MAX
      \<and> read_stalls demo_env ?ch 2 (tstate (start ([Stall, Stall, Reply [60]], []))) = Some ([Reply [60]], [])
      \<and> char_read demo_env ?ch ([Reply [60]], []) = (Reply [60], ([], []))
      \<and> parseResponse demo_env ''3011'' [60] = Some [(''measurementInterval'', JNum 60)]"
    by code_simp
  have r2: "read_stalls demo_env ?ch REQUEST_RETRY_MAX (tstate (start ([], []))) = Some ([], [])"
    by code_simp
  have w1: "createWriteBuffer demo_env ''3011'' ?data = Some (Inr [120])
      \<and> (1::nat) < REQUEST_RETRY_MAX
      \<and> write_stalls demo_env ?ch [120] False 1 (tstate (start ([], [Stall, Reply ()]))) = Some ([], [Reply ()])
      \<and> char_write demo_env ?ch [120] False ([], [Reply ()]) = (Reply (), ([], []))"
    by code_simp
  have w2: "createWriteBuffer demo_env ''3011'' ?data = Some (Inr [120])
      \<and> write_stalls demo_env ?ch [120] False REQUEST_RETRY_MAX (tstate (start ([], []))) = Some ([], [])"
    by code_simp
  from T[of "start ([Stall, Stall, Reply [60]], [])"] r1
  have c1: "fst (priv_read demo_env (JStr ''3011'') (start ([Stall, Stall, Reply [60]], [])))
       = Inr [(''measurementInterval'', JNum 60)]
     \<and> transport_calls (new_events (start ([Stall, Stall, Reply [60]], []))
        (snd (priv_read demo_env (JStr ''3011'') (start ([Stall, Stall, Reply [60]], []))))) = 2 + 1"
    by blast
  from T[of "start ([], [])"] r2
  have c2: "fst (priv_read demo_env (JStr ''3011'') (start ([], []))) = Inl Timeout
     \<and> transport_calls (new_events (start ([], []))
        (snd (priv_read demo_env (JStr ''3011'') (start ([], []))))) = REQUEST_RETRY_MAX"
    by blast
  from T[of "start ([], [Stall, Reply ()])" ?data False] w1
  have c3: "fst (priv_write demo_env (JStr ''3011'') ?data False (start ([], [Stall, Reply ()]))) = Inr ()
     \<and> transport_calls (new_events (start ([], [Stall, Reply ()]))
        (snd (priv_write demo_env (JStr ''3011'') ?data False (start ([], [Stall, Reply ()]))))) = 1 + 1"
    by blast
  from T[of "start ([], [])" ?data False] w2
  have c4: "fst (priv_write demo_env (JStr ''3011'') ?data False (start ([], []))) = Inl Timeout"
    by blast
  from c1 c2 c3 c4 show ?thesis
    by (simp add: REQUEST_RETRY_MAX_def)
qed

text \<open>
  C6, as the code has it. When the transport call of an attempt completes with an error,
  the engine makes no further attempt: the operation fails at once with that error. The
  failing call is the last event of the operation, so no timer is waited out after it
  and the transport is not called again, however many attempts are left.
\<close>

theorem engine_error_ends_operation:
  assumes "char_uuid_of i = Some u" and "chars E u = Some ch"
  shows "(\<forall>k s1 s2 e.
            k < REQUEST_RETRY_MAX \<and> read_stalls E ch k (tstate w) = Some s1
            \<and> char_read E ch s1 = (Fail e, s2)
            \<longrightarrow> priv_read E i w =
                  (Inl e, w\<lparr>tstate := s2,
                    trace := trace w @ stalled k (TRead (uuid ch)) @ [TRead (uuid ch)]\<rparr>))
    \<and> (\<forall>k s1 s2 e buf.
            createWriteBuffer E u data = Some (Inr buf)
            \<and> k < REQUEST_RETRY_MAX \<and> write_stalls E ch buf wr k (tstate w) = Some s1
            \<and> char_write E ch buf wr s1 = (Fail e, s2)
            \<longrightarrow> priv_write E i data wr w =
                  (Inl e, w\<lparr>tstate := s2,
                    trace := trace w @ stalled k (TWrite (uuid ch) buf wr)
                             @ [TWrite (uuid ch) buf wr]\<rparr>))"
proof -
  have rd: "priv_read E i w = readData E u ch 0 w"
    using assms by (simp add: priv_read_def)
  have wr_eq: "createWriteBuffer E u data = Some (Inr buf) \<Longrightarrow>
            priv_write E i data wr w = writeData E ch buf wr 0 w" for buf
    using assms by (simp add: priv_write_def)
  have read_fail: "priv_read E i w =
      (Inl e, w\<lparr>tstate := s2, trace := trace w @ stalled k (TRead (uuid ch)) @ [TRead (uuid ch)]\<rparr>)"
    if "k < REQUEST_RETRY_MAX" "read_stalls E ch k (tstate w) = Some s1"
      "char_read E ch s1 = (Fail e, s2)" for k s1 s2 e
    using readData_answer[OF that(2) that(1) that(3), of u] by (simp add: rd)
  have write_fail: "priv_write E i data wr w =
      (Inl e, w\<lparr>tstate := s2,
         trace := trace w @ stalled k (TWrite (uuid ch) buf wr) @ [TWrite (uuid ch) buf wr]\<rparr>)"
    if "createWriteBuffer E u data = Some (Inr buf)" "k < REQUEST_RETRY_MAX"
      "write_stalls E ch buf wr k (tstate w) = Some s1" "char_write E ch buf wr s1 = (Fail e, s2)"
    for k s1 s2 e buf
    using writeData_answer[OF that(3) that(2) that(4)] by (simp add: wr_eq[OF that(1)])
  show ?thesis
    using read_fail write_fail by blast
qed

theorem engine_error_ends_operation_witness:
  "priv_read demo_env (JStr ''3011'') (start ([Stall, Fail (OtherError ''disconnected''), Reply [60]], []))
     = (Inl (OtherError ''disconnected''),
        \<lparr>tstate = ([Reply [60]], []),
         trace = [TRead ''0c4c3011770046f4aa96d5e974e32a54'', Timer 5000,
                  TRead ''0c4c3011770046f4aa96d5e974e32a54'']\<rparr>)
   \<and> priv_write demo_env (JStr ''3011'') (JObj [(''measurementInterval'', JNum 120)]) False
        (start ([], [Fail (OtherError ''disconnected''), Reply ()]))
     = (Inl (OtherError ''disconnected''),
        \<lparr>tstate = ([], [Reply ()]),
         trace = [TWrite ''0c4c3011770046f4aa96d5e974e32a54'' [120] False]\<rparr>)"
proof -
  let ?ch = "\<lparr>uuid = ''0c4c3011770046f4aa96d5e974e32a54'', name = ''Measurement interval''\<rparr>"
  let ?data = "JObj [(''measurementInterval'', JNum 120)]"
  let ?e = "OtherError ''disconnected''"
  have u: "char_uuid_of (JStr ''3011'') = Some ''3011''"
    by code_simp
  note T = engine_error_ends_operation[OF u demo_chars(5)]
  have r1: "(1::nat) < REQUEST_RETRY_MAX
      \<and> read_stalls demo_env ?ch 1 (tstate (start ([Stall, Fail ?e, Reply [60]], [])))
          = Some ([Fail ?e, Reply [60]], [])
      \<and> char_read demo_env ?ch ([Fail ?e, Reply [60]], []) = (Fail ?e, ([Reply [60]], []))"
    by code_simp
  have w1: "createWriteBuffer demo_env ''3011'' ?data = Some (Inr [120])
      \<and> (0::nat) < REQUEST_RETRY_MAX
      \<and> write_stalls demo_env ?ch [120] False 0 (tstate (start ([], [Fail ?e, Reply ()])))
          = Some ([], [Fail ?e, Reply ()])
      \<and> char_write demo_env ?ch [120] False ([], [Fail ?e, Reply ()]) = (Fail ?e, ([], [Reply ()]))"
    by code_simp
  from T[of "start ([Stall, Fail ?e, Reply [60]], [])"] r1
  have c1: "priv_read demo_env (JStr ''3011'') (start ([Stall, Fail ?e, Reply [60]], [])) =
      (Inl ?e, (start ([Stall, Fail ?e, Reply [60]], []))\<lparr>tstate := ([Reply [60]], []),
         trace := trace (start ([Stall, Fail ?e, Reply [60]], []))
                  @ stalled 1 (TRead (uuid ?ch)) @ [TRead (uuid ?ch)]\<rparr>)"
    by blast
  from T[of "start ([], [Fail ?e, Reply ()])" ?data False] w1
  have c2: "priv_write demo_env (JStr ''3011'') ?data False (start ([], [Fail ?e, Reply ()])) =
      (Inl ?e, (start ([], [Fail ?e, Reply ()]))\<lparr>tstate := ([], [Reply ()]),
         trace := trace (start ([], [Fail ?e, Reply ()]))
                  @ stalled 0 (TWrite (uuid ?ch) [120] False) @ [TWrite (uuid ?ch) [120] False]\<rparr>)"
    by blast
  from c1 c2 show ?thesis
    by (simp add: start_def stalled_def RESPONSE_TIMEOUT_MSEC_def)
qed

text \<open>
  The claim as it was stated asks for a second attempt after an attempt that ended in an
  error. Here the first read fails and the transport would answer a second one; the
  engine never makes it: the error is the result, one call was made, and the answer is
  still waiting in the script. The same holds for a write.
\<close>

theorem engine_retry_on_error_counterexample:
  "fst (priv_read demo_env (JStr ''3011'') (start ([Fail (OtherError ''disconnected''), Reply [60]], [])))
     = Inl (OtherError ''disconnected'')
   \<and> transport_calls (new_events (start ([Fail (OtherError ''disconnected''), Reply [60]], []))
        (snd (priv_read demo_env (JStr ''3011'')
               (start ([Fail (OtherError ''disconnected''), Reply [60]], []))))) = 1
   \<and> tstate (snd (priv_read demo_env (JStr ''3011'')
               (start ([Fail (OtherError ''disconnected''), Reply [60]], [])))) = ([Reply [60]], [])
   \<and> fst (priv_write demo_env (JStr ''3011'') (JObj [(''measurementInterval'', JNum 120)]) False
        (start ([], [Fail (OtherError ''disconnected''), Reply ()])))
     = Inl (OtherError ''disconnected'')
   \<and> transport_calls (new_events (start ([], [Fail (OtherError ''disconnected''), Reply ()]))
        (snd (priv_write demo_env (JStr ''3011'') (JObj [(''measurementInterval'', JNum 120)]) False
               (start ([], [Fail (OtherError ''disconnected''), Reply ()]))))) = 1"
  by code_simp

section \<open>Properties of the merge and of the write of a value\<close>

lemma new_events_trans:
  "trace w1 = trace w @ evs1 \<Longrightarrow> trace w2 = trace w1 @ evs2 \<Longrightarrow> new_events w w2 = evs1 @ evs2"
  by (simp add: new_events_def)

lemma priv_read_no_write:
  "\<exists>evs. trace (snd (priv_read E i w)) = trace w @ evs \<and> filter is_write evs = []"
proof -
  from priv_read_new_events[of E i w]
  obtain evs where evs: "trace (snd (priv_read E i w)) = trace w @ evs"
    and sub: "set evs \<subseteq>
           (case char_uuid_of i of
              None \<Rightarrow> {}
            | Some u \<Rightarrow>
                (case chars E u of
                   None \<Rightarrow> {}
                 | Some ch \<Rightarrow> {TRead (uuid ch), Timer RESPONSE_TIMEOUT_MSEC}))"
    by blast
  have "\<not> is_write ev" if "ev \<in> set evs" for ev
    using sub that by (auto split: option.splits)
  then have "filter is_write evs = []"
    by (simp add: filter_empty_conv)
  with evs show ?thesis by blast
qed

lemma overrideProps_keeps_keys:
  "overrideProps wr props (JObj ps) n = Inr (props', n') \<Longrightarrow>
   map fst props' = map fst props
   \<and> (\<forall>k. map_of ps k = None \<longrightarrow> map_of props' k = map_of props k)"
proof (induction props arbitrary: n props' n')
  case Nil
  then show ?case by simp
next
  case (Cons kb props)
  obtain k b where kb: "kb = (k, b)" by (cases kb)
  show ?case
  proof (cases "map_of ps k")
    case None
    with Cons.prems kb obtain rest where
      r: "overrideProps wr props (JObj ps) n = Inr (rest, n')" and p: "props' = (k, b) # rest"
      by (auto split: sum.splits)
    from Cons.IH[OF r] p kb show ?thesis by simp
  next
    case (Some v)
    show ?thesis
    proof (cases "typeof_object v")
      case True
      with Cons.prems kb Some obtain b' n1 rest where
        r: "overrideProps wr props (JObj ps) n1 = Inr (rest, n')" and p: "props' = (k, b') # rest"
        by (auto split: sum.splits)
      from Cons.IH[OF r] p kb Some show ?thesis by simp
    next
      case False
      with Cons.prems kb Some obtain rest where
        r: "overrideProps wr props (JObj ps) (n + 1) = Inr (rest, n')" and p: "props' = (k, v) # rest"
        by (auto split: sum.splits if_splits)
      from Cons.IH[OF r] p kb Some show ?thesis by simp
    qed
  qed
qed

lemma overrideProps_absent:
  "(\<forall>k. map_of ps k \<noteq> None \<longrightarrow> map_of props k = None) \<Longrightarrow>
   overrideProps wr props (JObj ps) n = Inr (props, n)"
proof (induction props)
  case Nil
  then show ?case by simp
next
  case (Cons kb props)
  obtain k b where kb: "kb = (k, b)" by (cases kb)
  have k: "map_of ps k = None"
    using Cons.prems kb by (cases "map_of ps k") auto
  have "\<forall>k'. map_of ps k' \<noteq> None \<longrightarrow> map_of props k' = None"
  proof (intro allI impI)
    fix k' assume a: "map_of ps k' \<noteq> None"
    with k have "k' \<noteq> k" by auto
    with Cons.prems a kb show "map_of props k' = None" by (auto split: if_splits)
  qed
  from Cons.IH[OF this] k kb show ?case by simp
qed

lemma spec_overrides_not_object: "\<not> is_JObj b \<Longrightarrow> spec_overrides b v = 0"
  by (cases b) simp_all

lemma spec_merge_not_object: "\<not> is_JObj b \<Longrightarrow> spec_merge b v = b"
  by (cases b) simp_all

lemma override_refines:
  "\<forall>merged n'. overrideObject base obj n = Inr (merged, n')
       \<longrightarrow> merged = spec_merge base obj \<and> n' = n + spec_overrides base obj"
  "\<forall>props' n'. overrideProps wr props obj n = Inr (props', n')
       \<longrightarrow> (wr \<longrightarrow> props' = spec_merge_props props obj \<and> n' = n + spec_overrides_props props obj)
           \<and> (\<not> wr \<and> (\<forall>kv \<in> set props. \<not> is_JObj (snd kv)) \<longrightarrow> n' = n)"
proof (induction base obj n and wr props obj n rule: overrideObject_overrideProps.induct)
  case (1 base obj override_num)
  show ?case
  proof (cases base)
    case (JObj kvs)
    with 1[of kvs] show ?thesis by (auto split: sum.splits)
  next
    case (JStr s)
    with 1[of "map (\<lambda>i. (Number_toString 10 (int i), JStr [s ! i])) [0..<length s]"]
    show ?thesis by (auto split: sum.splits)
  qed (use 1 in \<open>auto split: sum.splits\<close>)
next
  case (2 wr obj override_num)
  then show ?case by simp
next
  case (3 wr k b props obj override_num)
  show ?case
  proof (cases obj)
    case (JObj kvs)
    note obj = this
    show ?thesis
    proof (cases "map_of kvs k")
      case None
      with 3(1)[OF obj] obj show ?thesis
        by (auto simp: requested_def split: sum.splits)
    next
      case (Some v)
      show ?thesis
      proof (cases "typeof_object v")
        case True
        show ?thesis
        proof (intro allI impI)
          fix props' n'
          assume a: "overrideProps wr ((k, b) # props) obj override_num = Inr (props', n')"
          with obj Some True obtain b' n1 rest where
            o: "overrideObject b v override_num = Inr (b', n1)"
            and r: "overrideProps wr props obj n1 = Inr (rest, n')"
            and p: "props' = (k, b') # rest"
            by (auto split: sum.splits)
          from 3(2)[OF obj Some True] o
          have b': "b' = spec_merge b v" and n1: "n1 = override_num + spec_overrides b v"
            by auto
          from 3(3)[OF obj Some True o refl] r
          have rest: "wr \<longrightarrow> rest = spec_merge_props props obj \<and> n' = n1 + spec_overrides_props props obj"
            and nw: "\<not> wr \<and> (\<forall>kv \<in> set props. \<not> is_JObj (snd kv)) \<longrightarrow> n' = n1"
            by auto
          have nwb: "\<not> is_JObj b \<longrightarrow> n1 = override_num"
            using n1 by (simp add: spec_overrides_not_object)
          show "(wr \<longrightarrow> props' = spec_merge_props ((k, b) # props) obj
                   \<and> n' = override_num + spec_overrides_props ((k, b) # props) obj)
              \<and> (\<not> wr \<and> (\<forall>kv \<in> set ((k, b) # props). \<not> is_JObj (snd kv)) \<longrightarrow> n' = override_num)"
            using b' n1 rest nw nwb p obj Some True by (simp add: requested_def)
        qed
      next
        case False
        with 3(4)[OF obj Some False] obj Some show ?thesis
          by (auto simp: requested_def split: sum.splits if_splits)
      qed
    qed
  qed simp_all
qed

lemma override_total:
  "plain base \<longrightarrow> no_null obj \<longrightarrow> is_JObj obj \<longrightarrow> (\<exists>r. overrideObject base obj n = Inr r)"
  "(\<forall>kv \<in> set props. plain (snd kv)) \<longrightarrow> wr \<longrightarrow> no_null obj \<longrightarrow> is_JObj obj
     \<longrightarrow> (\<exists>r. overrideProps wr props obj n = Inr r)"
proof (induction base obj n and wr props obj n rule: overrideObject_overrideProps.induct)
  case (1 base obj override_num)
  show ?case
  proof (cases base)
    case (JObj kvs)
    with 1[of kvs] show ?thesis by (auto split: sum.splits)
  qed simp_all
next
  case (2 wr obj override_num)
  then show ?case by simp
next
  case (3 wr k b props obj override_num)
  show ?case
  proof (cases obj)
    case (JObj kvs)
    note obj = this
    show ?thesis
    proof (cases "map_of kvs k")
      case None
      with 3(1)[OF obj] obj show ?thesis
        by (auto split: sum.splits)
    next
      case (Some v)
      then have vin: "(k, v) \<in> set kvs"
        by (rule map_of_SomeD)
      show ?thesis
      proof (cases "typeof_object v")
        case True
        show ?thesis
        proof (intro impI)
          assume pl: "\<forall>kv \<in> set ((k, b) # props). plain (snd kv)" and wr: wr
            and nn: "no_null obj" and "is_JObj obj"
          from nn obj vin have nnv: "no_null v" by auto
          with True have ov: "is_JObj v" by (cases v) simp_all
          from 3(2)[OF obj Some True] pl nnv ov
          obtain b' n1 where o: "overrideObject b v override_num = Inr (b', n1)"
            by auto
          from 3(3)[OF obj Some True o refl] pl wr nn obj
          obtain r where r: "overrideProps wr props obj n1 = Inr r"
            by auto
          obtain rest n' where "r = (rest, n')" by (cases r)
          with o r obj Some True show "\<exists>r. overrideProps wr ((k, b) # props) obj override_num = Inr r"
            by simp
        qed
      next
        case False
        with 3(4)[OF obj Some False] obj Some show ?thesis
          by (auto split: sum.splits if_splits)
      qed
    qed
  qed simp_all
qed

lemma overrideProps_known:
  "(\<forall>k \<in> fst ` set props. map_of ps k = map_of qs k) \<Longrightarrow>
   overrideProps wr props (JObj ps) n = overrideProps wr props (JObj qs) n"
proof (induction props arbitrary: n)
  case Nil
  then show ?case by simp
next
  case (Cons kb props)
  obtain k b where kb: "kb = (k, b)" by (cases kb)
  from Cons.prems kb have k: "map_of ps k = map_of qs k" by simp
  from Cons.prems have "\<forall>k \<in> fst ` set props. map_of ps k = map_of qs k" by simp
  from Cons.IH[OF this] have ih: "overrideProps wr props (JObj ps) m = overrideProps wr props (JObj qs) m" for m .
  show ?case
    unfolding kb by (simp only: overrideProps.simps jsval.case k ih)
qed

lemma map_of_filter_known:
  "has_prop k res \<Longrightarrow> map_of (filter (\<lambda>kv. has_prop (fst kv) res) ps) k = map_of ps k"
  by (induction ps) auto

lemma map_of_spec_merge_props:
  "map_of (spec_merge_props props obj) k =
     (case map_of props k of
        None \<Rightarrow> None
      | Some b \<Rightarrow>
          (case requested obj k of
             None \<Rightarrow> Some b
           | Some v \<Rightarrow> Some (if typeof_object v then spec_merge b v else v)))"
  by (induction props) (auto split: option.splits)

lemma map_fst_spec_merge_props: "map fst (spec_merge_props props obj) = map fst props"
  by (induction props) (auto split: option.splits)

lemma lookup_path_primitive:
  "\<not> is_JObj v \<Longrightarrow> lookup_path v ks \<noteq> None \<Longrightarrow> ks = []"
  by (cases v; cases ks) simp_all

lemma spec_merge_paths:
  "lookup_path (spec_merge base obj) ks \<noteq> None \<Longrightarrow> lookup_path base ks \<noteq> None"
proof (induction ks arbitrary: base obj)
  case Nil
  then show ?case by simp
next
  case (Cons k ks)
  show ?case
  proof (cases base)
    case (JObj kvs)
    note base = this
    show ?thesis
    proof (cases "map_of kvs k")
      case None
      with Cons.prems base show ?thesis
        by (simp add: map_of_spec_merge_props)
    next
      case (Some b)
      note b = this
      show ?thesis
      proof (cases "requested obj k")
        case None
        with Cons.prems base b show ?thesis
          by (simp add: map_of_spec_merge_props)
      next
        case (Some v)
        show ?thesis
        proof (cases "typeof_object v")
          case True
          with Cons.prems base b Some have "lookup_path (spec_merge b v) ks \<noteq> None"
            by (simp add: map_of_spec_merge_props)
          from Cons.IH[OF this] base b show ?thesis by simp
        next
          case False
          with Cons.prems base b Some have l: "lookup_path v ks \<noteq> None"
            by (simp add: map_of_spec_merge_props)
          from False have "\<not> is_JObj v" by (cases v) simp_all
          from lookup_path_primitive[OF this l] base b show ?thesis by simp
        qed
      qed
    qed
  qed (use Cons.prems in simp_all)
qed


lemma overrideProps_flat:
  "\<forall>kv \<in> set ps. \<not> typeof_object (snd kv) \<Longrightarrow>
   \<exists>r. overrideProps True props (JObj ps) n = Inr r"
proof (induction props arbitrary: n)
  case Nil
  then show ?case by simp
next
  case (Cons kb props)
  obtain k b where kb: "kb = (k, b)" by (cases kb)
  show ?case
  proof (cases "map_of ps k")
    case None
    from Cons.IH[OF Cons.prems, of n] obtain r where r: "overrideProps True props (JObj ps) n = Inr r"
      by blast
    obtain rest n' where "r = (rest, n')" by (cases r)
    with r None kb show ?thesis by simp
  next
    case (Some v)
    then have "(k, v) \<in> set ps"
      by (rule map_of_SomeD)
    with Cons.prems have nv: "\<not> typeof_object v"
      by auto
    from Cons.IH[OF Cons.prems, of "n + 1"] obtain r where
      r: "overrideProps True props (JObj ps) (n + 1) = Inr r"
      by blast
    obtain rest n' where "r = (rest, n')" by (cases r)
    with r Some nv kb show ?thesis by simp
  qed
qed




text \<open>
  C10. The merge goes over the keys of the current value and into the objects under
  them. Whenever it completes, the merged value is the current value with the requested
  values put under the keys it already has, at any depth (\<open>spec_merge\<close>), and the counter
  has grown by the number of values put (\<open>spec_overrides\<close>): a field of the request whose
  name the current value does not have at that place is neither added nor counted, and
  every path of the merged value is a path of the current one. On a current value made
  of objects, numbers and booleans and a request without \<^verbatim>\<open>null\<close> the merge completes,
  and so it does on any current value when no value of the request is an object. The
  fields of the request whose names are no keys of the current value can be left out of
  the request without any change to the outcome. When no name of the request is a key of
  the current value, the merge changes nothing and counts nothing. A write whose merge
  completes with nothing put, as for a request with only unknown names, fails with
  \<^verbatim>\<open>'No parameter was specified.'\<close> after the read, without a call of \<^verbatim>\<open>char.write\<close>;
  otherwise the merged value is what is written.
\<close>

theorem merge_ignores_unknown_fields:
  "(\<forall>merged n'.
       overrideObject (JObj res) (JObj ps) n = Inr (merged, n')
       \<longrightarrow> (\<exists>kvs'. merged = JObj kvs' \<and> map fst kvs' = map fst res
               \<and> (\<forall>k. \<not> has_prop k ps \<longrightarrow> get_prop kvs' k = get_prop res k)))
   \<and> ((\<forall>k. has_prop k ps \<longrightarrow> \<not> has_prop k res)
        \<longrightarrow> overrideObject (JObj res) (JObj ps) n = Inr (JObj res, n))
   \<and> (\<forall>w1. ps \<noteq> [] \<and> (\<forall>k. has_prop k ps \<longrightarrow> \<not> has_prop k res)
          \<and> priv_read E (JStr char_uuid) w = (Inr res, w1)
        \<longrightarrow> priv_setValue E char_uuid (JObj ps) w = (Inl NoParameterSpecified, w1)
            \<and> filter is_write (new_events w w1) = [])
   \<and> (\<forall>merged n'.
         overrideObject base obj n = Inr (merged, n')
         \<longrightarrow> merged = spec_merge base obj \<and> n' = n + spec_overrides base obj
             \<and> (\<forall>ks. lookup_path merged ks \<noteq> None \<longrightarrow> lookup_path base ks \<noteq> None))
   \<and> (plain base \<and> no_null obj \<and> is_JObj obj
        \<longrightarrow> overrideObject base obj n = Inr (spec_merge base obj, n + spec_overrides base obj))
   \<and> overrideObject (JObj res) (JObj ps) n
       = overrideObject (JObj res) (JObj (filter (\<lambda>kv. has_prop (fst kv) res) ps)) n
   \<and> (\<forall>w1 p n'.
         params_given params \<and> priv_read E (JStr char_uuid) w = (Inr res, w1)
         \<and> overrideObject (JObj res) params 0 = Inr (p, n')
         \<longrightarrow> p = spec_merge (JObj res) params \<and> n' = spec_overrides (JObj res) params
             \<and> filter is_write (new_events w w1) = []
             \<and> priv_setValue E char_uuid params w
                 = (if spec_overrides (JObj res) params = 0 then (Inl NoParameterSpecified, w1)
                    else priv_write E (JStr char_uuid) (spec_merge (JObj res) params) False w1))
   \<and> ((\<forall>kv \<in> set ps. \<not> typeof_object (snd kv))
        \<longrightarrow> overrideObject (JObj res) (JObj ps) n
             = Inr (spec_merge (JObj res) (JObj ps), n + spec_overrides (JObj res) (JObj ps)))"
proof (intro conjI allI impI)
  fix merged n'
  assume a: "overrideObject (JObj res) (JObj ps) n = Inr (merged, n')"
  then obtain kvs' where m: "merged = JObj kvs'"
    and o: "overrideProps True res (JObj ps) n = Inr (kvs', n')"
    by (auto split: sum.splits)
  from overrideProps_keeps_keys[OF o] m
  show "\<exists>kvs'. merged = JObj kvs' \<and> map fst kvs' = map fst res
               \<and> (\<forall>k. \<not> has_prop k ps \<longrightarrow> get_prop kvs' k = get_prop res k)"
    by (simp add: has_prop_def get_prop_def)
next
  assume "\<forall>k. has_prop k ps \<longrightarrow> \<not> has_prop k res"
  then have "\<forall>k. map_of ps k \<noteq> None \<longrightarrow> map_of res k = None"
    by (simp add: has_prop_def)
  from overrideProps_absent[OF this]
  show "overrideObject (JObj res) (JObj ps) n = Inr (JObj res, n)"
    by simp
next
  fix w1
  assume a: "ps \<noteq> [] \<and> (\<forall>k. has_prop k ps \<longrightarrow> \<not> has_prop k res)
          \<and> priv_read E (JStr char_uuid) w = (Inr res, w1)"
  then have "\<forall>k. map_of ps k \<noteq> None \<longrightarrow> map_of res k = None"
    by (simp add: has_prop_def)
  from overrideProps_absent[OF this]
  have "overrideObject (JObj res) (JObj ps) 0 = Inr (JObj res, 0)"
    by simp
  with a show "priv_setValue E char_uuid (JObj ps) w = (Inl NoParameterSpecified, w1)"
    by (simp add: priv_setValue_def)
  from priv_read_no_write[of E "JStr char_uuid" w] a
  show "filter is_write (new_events w w1) = []"
    by (auto simp: new_events_def)
next
  fix merged n'
  assume a: "overrideObject base obj n = Inr (merged, n')"
  from override_refines(1)[of base obj n] a
  show m: "merged = spec_merge base obj" and "n' = n + spec_overrides base obj"
    by blast+
  fix ks
  assume "lookup_path merged ks \<noteq> None"
  with m show "lookup_path base ks \<noteq> None"
    by (simp add: spec_merge_paths)
next
  assume a: "plain base \<and> no_null obj \<and> is_JObj obj"
  with override_total(1)[of base obj n] obtain r where r: "overrideObject base obj n = Inr r"
    by blast
  obtain merged n' where "r = (merged, n')" by (cases r)
  with r override_refines(1)[of base obj n]
  show "overrideObject base obj n = Inr (spec_merge base obj, n + spec_overrides base obj)"
    by simp
next
  have "\<forall>k \<in> fst ` set res.
          map_of ps k = map_of (filter (\<lambda>kv. has_prop (fst kv) res) ps) k"
  proof
    fix k assume "k \<in> fst ` set res"
    then have "has_prop k res"
      by (simp add: has_prop_def map_of_eq_None_iff)
    then show "map_of ps k = map_of (filter (\<lambda>kv. has_prop (fst kv) res) ps) k"
      by (simp add: map_of_filter_known)
  qed
  from overrideProps_known[OF this]
  show "overrideObject (JObj res) (JObj ps) n
       = overrideObject (JObj res) (JObj (filter (\<lambda>kv. has_prop (fst kv) res) ps)) n"
    by simp
next
  fix w1 p n'
  assume a: "params_given params \<and> priv_read E (JStr char_uuid) w = (Inr res, w1)
         \<and> overrideObject (JObj res) params 0 = Inr (p, n')"
  from override_refines(1)[of "JObj res" params 0] a
  show p: "p = spec_merge (JObj res) params" and n': "n' = spec_overrides (JObj res) params"
    by auto
  from priv_read_no_write[of E "JStr char_uuid" w] a
  show "filter is_write (new_events w w1) = []"
    by (auto simp: new_events_def)
  from a p n'
  show "priv_setValue E char_uuid params w
      = (if spec_overrides (JObj res) params = 0 then (Inl NoParameterSpecified, w1)
         else priv_write E (JStr char_uuid) (spec_merge (JObj res) params) False w1)"
    by (simp add: priv_setValue_def)
next
  assume "\<forall>kv \<in> set ps. \<not> typeof_object (snd kv)"
  from overrideProps_flat[OF this, of res n]
  obtain r where r: "overrideProps True res (JObj ps) n = Inr r"
    by blast
  obtain kvs' n' where "r = (kvs', n')" by (cases r)
  with r have "overrideObject (JObj res) (JObj ps) n = Inr (JObj kvs', n')"
    by simp
  with override_refines(1)[of "JObj res" "JObj ps" n]
  show "overrideObject (JObj res) (JObj ps) n
      = Inr (spec_merge (JObj res) (JObj ps), n + spec_overrides (JObj res) (JObj ps))"
    by simp
qed

theorem merge_ignores_unknown_fields_witness:
  "overrideObject (JObj [(''a'', JNum 1), (''b'', JObj [(''c'', JNum 2)])])
       (JObj [(''b'', JObj [(''zzz'', JNum 9)])]) 0
     = Inr (JObj [(''a'', JNum 1), (''b'', JObj [(''c'', JNum 2)])], 0)
   \<and> overrideObject (JObj [(''a'', JNum 1), (''b'', JObj [(''c'', JNum 2)])])
       (JObj [(''b'', JObj [(''c'', JNum 5), (''z'', JNum 0)]), (''q'', JNum 3)]) 0
     = Inr (JObj [(''a'', JNum 1), (''b'', JObj [(''c'', JNum 5)])], 1)
   \<and> (\<exists>kvs' n'.
        overrideObject (JObj [(''a'', JNum 1), (''b'', JObj [(''c'', JNum 2)])])
          (JObj [(''b'', JObj [(''c'', JNum 5), (''z'', JNum 0)]), (''q'', JNum 3)]) 0
          = Inr (JObj kvs', n')
        \<and> map fst kvs' = [''a'', ''b''] \<and> get_prop kvs' ''a'' = JNum 1)
   \<and> overrideObject (JObj [(''uuid'', JStr ''ab'')]) (JObj [(''uuid'', JStr ''cd''), (''id'', JNum 1)]) 0
       = Inr (spec_merge (JObj [(''uuid'', JStr ''ab'')]) (JObj [(''uuid'', JStr ''cd''), (''id'', JNum 1)]),
              spec_overrides (JObj [(''uuid'', JStr ''ab'')]) (JObj [(''uuid'', JStr ''cd''), (''id'', JNum 1)]))
   \<and> spec_overrides (JObj [(''uuid'', JStr ''ab'')]) (JObj [(''uuid'', JStr ''cd''), (''id'', JNum 1)]) = 1
   \<and> overrideObject (JObj [(''uuid'', JStr ''ab'')]) (JObj [(''uuid'', JStr ''cd''), (''id'', JNum 1)]) 0
       = Inr (JObj [(''uuid'', JStr ''cd'')], 1)
   \<and> overrideObject (JObj [(''a'', JNum 1), (''b'', JObj [(''c'', JNum 2)])])
       (JObj [(''b'', JObj [(''c'', JNum 5), (''z'', JNum 0)]), (''q'', JNum 3)]) 0
     = overrideObject (JObj [(''a'', JNum 1), (''b'', JObj [(''c'', JNum 2)])])
       (JObj [(''b'', JObj [(''c'', JNum 5), (''z'', JNum 0)])]) 0
   \<and> overrideObject (JObj [(''beaconMode'', JNum 8), (''txPowerLevel'', JNum 0)])
        (JObj [(''beaconmode'', JNum 7), (''power'', JNum 4)]) 0
      = Inr (JObj [(''beaconMode'', JNum 8), (''txPowerLevel'', JNum 0)], 0)
   \<and> priv_setValue demo_env ''3042'' (JObj [(''beaconmode'', JNum 7), (''power'', JNum 4)])
        (start ([Reply [8, 0]], [Reply ()]))
      = (Inl NoParameterSpecified,
         \<lparr>tstate = ([], [Reply ()]), trace = [TRead ''0c4c3042770046f4aa96d5e974e32a54'']\<rparr>)
   \<and> priv_setValue demo_env ''3042'' (JObj [(''beaconMode'', JObj [(''zzz'', JNum 9)])])
        (start ([Reply [8, 0]], [Reply ()]))
      = (Inl NoParameterSpecified,
         \<lparr>tstate = ([], [Reply ()]), trace = [TRead ''0c4c3042770046f4aa96d5e974e32a54'']\<rparr>)
   \<and> priv_setValue demo_env ''3042'' (JObj [(''beaconMode'', JNum 7), (''power'', JNum 4)])
        (start ([Reply [8, 0]], [Reply ()]))
      = priv_write demo_env (JStr ''3042'')
          (JObj [(''beaconMode'', JNum 7), (''txPowerLevel'', JNum 0)]) False
          \<lparr>tstate = ([], [Reply ()]), trace = [TRead ''0c4c3042770046f4aa96d5e974e32a54'']\<rparr>"
proof -
  let ?base = "JObj [(''a'', JNum 1), (''b'', JObj [(''c'', JNum 2)])]"
  let ?r1 = "JObj [(''b'', JObj [(''zzz'', JNum 9)])]"
  let ?r2 = "JObj [(''b'', JObj [(''c'', JNum 5), (''z'', JNum 0)]), (''q'', JNum 3)]"
  let ?ub = "JObj [(''uuid'', JStr ''ab'')]"
  let ?ur = "JObj [(''uuid'', JStr ''cd''), (''id'', JNum 1)]"
  let ?res = "[(''beaconMode'', JNum 8), (''txPowerLevel'', JNum 0)]"
  let ?ps = "[(''beaconmode'', JNum 7), (''power'', JNum 4)]"
  let ?p3 = "JObj [(''beaconMode'', JObj [(''zzz'', JNum 9)])]"
  let ?p4 = "JObj [(''beaconMode'', JNum 7), (''power'', JNum 4)]"
  let ?w = "start ([Reply [8, 0]], [Reply ()])"
  let ?w1 = "\<lparr>tstate = ([], [Reply ()]), trace = [TRead ''0c4c3042770046f4aa96d5e974e32a54'']\<rparr>"
  have pl1: "plain ?base \<and> no_null ?r1 \<and> is_JObj ?r1"
    by simp
  have pl2: "plain ?base \<and> no_null ?r2 \<and> is_JObj ?r2"
    by simp
  have e1: "spec_merge ?base ?r1 = ?base" "spec_overrides ?base ?r1 = 0"
    "spec_merge ?base ?r2 = JObj [(''a'', JNum 1), (''b'', JObj [(''c'', JNum 5)])]"
    "spec_overrides ?base ?r2 = 1"
    by code_simp+
  have c1: "overrideObject ?base ?r1 0 = Inr (?base, 0)"
    using merge_ignores_unknown_fields[where base = ?base and obj = ?r1 and n = 0,
        THEN conjunct2, THEN conjunct2, THEN conjunct2, THEN conjunct2, THEN conjunct1,
        rule_format, OF pl1]
    by (simp only: e1 add_0)
  have c2: "overrideObject ?base ?r2 0
      = Inr (JObj [(''a'', JNum 1), (''b'', JObj [(''c'', JNum 5)])], 1)"
    using merge_ignores_unknown_fields[where base = ?base and obj = ?r2 and n = 0,
        THEN conjunct2, THEN conjunct2, THEN conjunct2, THEN conjunct2, THEN conjunct1,
        rule_format, OF pl2]
    by (simp only: e1 add_0)
  have h3: "overrideObject (JObj [(''a'', JNum 1), (''b'', JObj [(''c'', JNum 2)])])
      (JObj [(''b'', JObj [(''c'', JNum 5), (''z'', JNum 0)]), (''q'', JNum 3)]) 0
      = Inr (JObj [(''a'', JNum 1), (''b'', JObj [(''c'', JNum 5)])], 1)"
    by code_simp
  have np: "\<not> has_prop ''a'' [(''b'', JObj [(''c'', JNum 5), (''z'', JNum 0)]), (''q'', JNum 3)]"
    by (simp add: has_prop_def)
  from merge_ignores_unknown_fields[where res = "[(''a'', JNum 1), (''b'', JObj [(''c'', JNum 2)])]"
      and ps = "[(''b'', JObj [(''c'', JNum 5), (''z'', JNum 0)]), (''q'', JNum 3)]" and n = 0,
      THEN conjunct1, rule_format, OF h3]
  obtain kvs' where k: "JObj [(''a'', JNum 1), (''b'', JObj [(''c'', JNum 5)])] = JObj kvs'"
    and mk: "map fst kvs' = map fst [(''a'', JNum 1), (''b'', JObj [(''c'', JNum 2)])]"
    and gk: "\<forall>k. \<not> has_prop k [(''b'', JObj [(''c'', JNum 5), (''z'', JNum 0)]), (''q'', JNum 3)]
              \<longrightarrow> get_prop kvs' k = get_prop [(''a'', JNum 1), (''b'', JObj [(''c'', JNum 2)])] k"
    by blast
  from gk np have "get_prop kvs' ''a'' = get_prop [(''a'', JNum 1), (''b'', JObj [(''c'', JNum 2)])] ''a''"
    by blast
  then have ga: "get_prop kvs' ''a'' = JNum 1"
    by (simp add: get_prop_def)
  from h3 k mk ga
  have c3: "\<exists>kvs' n'. overrideObject ?base ?r2 0 = Inr (JObj kvs', n')
        \<and> map fst kvs' = [''a'', ''b''] \<and> get_prop kvs' ''a'' = JNum 1"
    by (intro exI[of _ kvs'] exI[of _ 1]) simp
  have h4: "overrideObject ?ub ?ur 0 = Inr (JObj [(''uuid'', JStr ''cd'')], 1)"
    by code_simp
  from merge_ignores_unknown_fields[where base = ?ub and obj = ?ur and n = 0,
      THEN conjunct2, THEN conjunct2, THEN conjunct2, THEN conjunct1, rule_format, OF h4]
  have m4: "JObj [(''uuid'', JStr ''cd'')] = spec_merge ?ub ?ur" and n4: "1 = 0 + spec_overrides ?ub ?ur"
    by blast+
  from n4 have c4b: "spec_overrides ?ub ?ur = 1"
    by simp
  from h4 m4 c4b have c4: "overrideObject ?ub ?ur 0 = Inr (spec_merge ?ub ?ur, spec_overrides ?ub ?ur)"
    by simp
  have f5: "filter (\<lambda>kv. has_prop (fst kv) [(''a'', JNum 1), (''b'', JObj [(''c'', JNum 2)])])
        [(''b'', JObj [(''c'', JNum 5), (''z'', JNum 0)]), (''q'', JNum 3)]
      = [(''b'', JObj [(''c'', JNum 5), (''z'', JNum 0)])]"
    by (simp add: has_prop_def)
  have c5: "overrideObject ?base ?r2 0
      = overrideObject ?base (JObj [(''b'', JObj [(''c'', JNum 5), (''z'', JNum 0)])]) 0"
    using merge_ignores_unknown_fields[where res = "[(''a'', JNum 1), (''b'', JObj [(''c'', JNum 2)])]"
      and ps = "[(''b'', JObj [(''c'', JNum 5), (''z'', JNum 0)]), (''q'', JNum 3)]" and n = 0,
      THEN conjunct2, THEN conjunct2, THEN conjunct2, THEN conjunct2, THEN conjunct2, THEN conjunct1]
    by (simp only: f5)
  have h6: "\<forall>k. has_prop k ?ps \<longrightarrow> \<not> has_prop k ?res"
    by (simp add: has_prop_def)
  have c6: "overrideObject (JObj ?res) (JObj ?ps) 0 = Inr (JObj ?res, 0)"
    by (rule merge_ignores_unknown_fields[where res = ?res and ps = ?ps and n = 0,
      THEN conjunct2, THEN conjunct1, THEN mp, OF h6])
  have rd: "priv_read demo_env (JStr ''3042'') ?w = (Inr ?res, ?w1)"
    by code_simp
  have h7: "?ps \<noteq> [] \<and> (\<forall>k. has_prop k ?ps \<longrightarrow> \<not> has_prop k ?res)
      \<and> priv_read demo_env (JStr ''3042'') ?w = (Inr ?res, ?w1)"
    using h6 rd by simp
  have c7: "priv_setValue demo_env ''3042'' (JObj ?ps) ?w = (Inl NoParameterSpecified, ?w1)"
    by (rule merge_ignores_unknown_fields[where res = ?res and ps = ?ps and E = demo_env
      and char_uuid = "''3042''" and w = ?w,
      THEN conjunct2, THEN conjunct2, THEN conjunct1, THEN spec, THEN mp, OF h7, THEN conjunct1])
  have o8: "overrideObject (JObj ?res) ?p3 0 = Inr (JObj ?res, 0)"
    by code_simp
  have h8: "params_given ?p3 \<and> priv_read demo_env (JStr ''3042'') ?w = (Inr ?res, ?w1)
      \<and> overrideObject (JObj ?res) ?p3 0 = Inr (JObj ?res, 0)"
    using rd o8 by simp
  have e8: "spec_overrides (JObj ?res) ?p3 = 0"
    by code_simp
  have c8: "priv_setValue demo_env ''3042'' ?p3 ?w = (Inl NoParameterSpecified, ?w1)"
    using merge_ignores_unknown_fields[where res = ?res and params = ?p3 and E = demo_env
      and char_uuid = "''3042''" and w = ?w,
      THEN conjunct2, THEN conjunct2, THEN conjunct2, THEN conjunct2, THEN conjunct2,
      THEN conjunct2, THEN conjunct1, rule_format, OF h8, THEN conjunct2, THEN conjunct2, THEN conjunct2]
    by (simp only: e8 refl if_True)
  have o9: "overrideObject (JObj ?res) ?p4 0
      = Inr (JObj [(''beaconMode'', JNum 7), (''txPowerLevel'', JNum 0)], 1)"
    by code_simp
  have h9: "params_given ?p4 \<and> priv_read demo_env (JStr ''3042'') ?w = (Inr ?res, ?w1)
      \<and> overrideObject (JObj ?res) ?p4 0
          = Inr (JObj [(''beaconMode'', JNum 7), (''txPowerLevel'', JNum 0)], 1)"
    using rd o9 by simp
  have e9: "spec_overrides (JObj ?res) ?p4 = 1"
    "spec_merge (JObj ?res) ?p4 = JObj [(''beaconMode'', JNum 7), (''txPowerLevel'', JNum 0)]"
    by code_simp+
  have c9: "priv_setValue demo_env ''3042'' ?p4 ?w
      = priv_write demo_env (JStr ''3042'')
          (JObj [(''beaconMode'', JNum 7), (''txPowerLevel'', JNum 0)]) False ?w1"
    using merge_ignores_unknown_fields[where res = ?res and params = ?p4 and E = demo_env
      and char_uuid = "''3042''" and w = ?w,
      THEN conjunct2, THEN conjunct2, THEN conjunct2, THEN conjunct2, THEN conjunct2,
      THEN conjunct2, THEN conjunct1, rule_format, OF h9, THEN conjunct2, THEN conjunct2, THEN conjunct2]
    by (simp only: e9 one_neq_zero if_False)
  have fl: "\<forall>kv \<in> set [(''uuid'', JStr ''cd''), (''id'', JNum 1)]. \<not> typeof_object (snd kv)"
    by simp
  have e10: "spec_merge ?ub ?ur = JObj [(''uuid'', JStr ''cd'')]"
    by code_simp
  have c10: "overrideObject ?ub ?ur 0 = Inr (JObj [(''uuid'', JStr ''cd'')], 1)"
    using merge_ignores_unknown_fields[where res = "[(''uuid'', JStr ''ab'')]"
      and ps = "[(''uuid'', JStr ''cd''), (''id'', JNum 1)]" and n = 0,
      THEN conjunct2, THEN conjunct2, THEN conjunct2, THEN conjunct2, THEN conjunct2,
      THEN conjunct2, THEN conjunct2, THEN mp, OF fl]
    by (simp only: e10 c4b add_0)
  show ?thesis
    by (intro conjI) (rule c1 c2 c3 c4 c4b c10 c5 c6 c7 c8 c9)+
qed

section \<open>Properties of the paged retrieval\<close>

text \<open>
  C4. The anchor of a retrieval. A request without a \<^verbatim>\<open>page\<close> gives no target page, a
  request with a page in 0..2047 gives that page. With no target page the anchor is the
  latest page and the latest row the peripheral reports; with a target page that is not
  the latest page the anchor row is 12; with the latest page as the target the anchor
  row is the reported latest row. The interval is the reported measurement interval in
  every case.
\<close>

theorem anchor_resolution:
  assumes "getLatestPage E w = (Inr res, w1)"
  shows "(\<not> has_prop ''page'' kvs \<longrightarrow> page_param (JObj kvs) = Inr None)
    \<and> (has_prop ''page'' kvs \<and> get_prop kvs ''page'' = JNum n \<and> 0 \<le> n \<and> n \<le> 2047
          \<longrightarrow> page_param (JObj kvs) = Inr (Some n))
    \<and> getTargetPageAndRow E None w =
         (Inr [(''page'', get_prop res ''page''), (''row'', get_prop res ''row''),
               (''interval'', get_prop res ''measurementInterval'')], w1)
    \<and> (get_prop res ''page'' \<noteq> JNum n
          \<longrightarrow> getTargetPageAndRow E (Some n) w =
                (Inr [(''page'', JNum n), (''row'', JNum 12),
                      (''interval'', get_prop res ''measurementInterval'')], w1))
    \<and> (get_prop res ''page'' = JNum n
          \<longrightarrow> getTargetPageAndRow E (Some n) w =
                (Inr [(''page'', JNum n), (''row'', get_prop res ''row''),
                      (''interval'', get_prop res ''measurementInterval'')], w1))"
  using assms by (simp add: getTargetPageAndRow_def page_param_def Let_def)

theorem anchor_resolution_witness:
  "page_param (JObj [(''page'', JNum 5)]) = Inr (Some 5)
   \<and> page_param (JObj []) = Inr None
   \<and> getTargetPageAndRow demo_env (Some 5) (start ([Reply [100, 60, 5, 4]], []))
       = (Inr [(''page'', JNum 5), (''row'', JNum 4), (''interval'', JNum 60)],
          \<lparr>tstate = ([], []), trace = [TRead ''0c4c3002770046f4aa96d5e974e32a54'']\<rparr>)
   \<and> getTargetPageAndRow demo_env (Some 3) (start ([Reply [100, 60, 5, 4]], []))
       = (Inr [(''page'', JNum 3), (''row'', JNum 12), (''interval'', JNum 60)],
          \<lparr>tstate = ([], []), trace = [TRead ''0c4c3002770046f4aa96d5e974e32a54'']\<rparr>)
   \<and> getTargetPageAndRow demo_env None (start ([Reply [100, 60, 5, 4]], []))
       = (Inr [(''page'', JNum 5), (''row'', JNum 4), (''interval'', JNum 60)],
          \<lparr>tstate = ([], []), trace = [TRead ''0c4c3002770046f4aa96d5e974e32a54'']\<rparr>)"
proof -
  let ?w = "start ([Reply [100, 60, 5, 4]], [])"
  let ?w1 = "\<lparr>tstate = ([], []), trace = [TRead ''0c4c3002770046f4aa96d5e974e32a54'']\<rparr>"
  let ?res = "[(''unixTime'', JNum 100), (''measurementInterval'', JNum 60),
               (''page'', JNum 5), (''row'', JNum 4)]"
  have h: "getLatestPage demo_env ?w = (Inr ?res, ?w1)"
    by code_simp
  have g: "get_prop ?res ''page'' = JNum 5 \<and> get_prop ?res ''row'' = JNum 4
      \<and> get_prop ?res ''measurementInterval'' = JNum 60"
    by (simp add: get_prop_def)
  have p5: "has_prop ''page'' [(''page'', JNum 5)] \<and> get_prop [(''page'', JNum 5)] ''page'' = JNum 5"
    by (simp add: has_prop_def get_prop_def)
  have c1: "page_param (JObj [(''page'', JNum 5)]) = Inr (Some 5)"
    using anchor_resolution[OF h, of "[(''page'', JNum 5)]" 5] p5 by simp
  have c0: "page_param (JObj []) = Inr None"
    using anchor_resolution[OF h, of "[]" 5] by (simp add: has_prop_def)
  have c2: "getTargetPageAndRow demo_env (Some 5) ?w
       = (Inr [(''page'', JNum 5), (''row'', JNum 4), (''interval'', JNum 60)], ?w1)"
    using anchor_resolution[OF h, of "[]" 5] g by simp
  have c3: "getTargetPageAndRow demo_env (Some 3) ?w
       = (Inr [(''page'', JNum 3), (''row'', JNum 12), (''interval'', JNum 60)], ?w1)"
    using anchor_resolution[OF h, of "[]" 3] g by simp
  have c4: "getTargetPageAndRow demo_env None ?w
       = (Inr [(''page'', JNum 5), (''row'', JNum 4), (''interval'', JNum 60)], ?w1)"
    using anchor_resolution[OF h, of "[]" 3] g by simp
  from c0 c1 c2 c3 c4 show ?thesis by blast
qed

lemma char_uuid_of_keys:
  "char_uuid_of (JStr ''3002'') = Some ''3002''"
  "char_uuid_of (JStr ''3003'') = Some ''3003''"
  "char_uuid_of (JStr ''3004'') = Some ''3004''"
  "char_uuid_of (JStr ''3005'') = Some ''3005''"
  "char_uuid_of (JStr ''3031'') = Some ''3031''"
  "char_uuid_of (JStr ''3042'') = Some ''3042''"
  by code_simp+

lemma priv_readValue_events:
  assumes "char_uuid_of (JStr u) = Some u"
  shows "\<exists>evs. trace (snd (priv_readValue E u w)) = trace w @ evs \<and> set evs \<subseteq> read_events E u"
  using priv_read_new_events[of E "JStr u" w] assms
  unfolding priv_readValue_def read_events_def by auto

lemma getRecordingStatus_events:
  "\<exists>evs. trace (snd (getRecordingStatus E w)) = trace w @ evs
         \<and> set evs \<subseteq> read_events E ''3042'' \<union> read_events E ''3031'' \<union> read_events E ''3002''"
proof -
  let ?S = "read_events E ''3042'' \<union> read_events E ''3031'' \<union> read_events E ''3002''"
  obtain r1 w1 where a: "getAdvSetting E w = (r1, w1)" by (cases "getAdvSetting E w")
  from priv_readValue_events[OF char_uuid_of_keys(6), of E w] a
  obtain e1 where e1: "trace w1 = trace w @ e1" "set e1 \<subseteq> ?S"
    by (auto simp: getAdvSetting_def)
  show ?thesis
  proof (cases r1)
    case (Inl e)
    then show ?thesis using a e1 by (auto simp: getRecordingStatus_def)
  next
    case (Inr res1)
    note r1 = this
    obtain r2 w2 where b: "getTime E w1 = (r2, w2)" by (cases "getTime E w1")
    from priv_readValue_events[OF char_uuid_of_keys(5), of E w1] b
    obtain e2 where e2: "trace w2 = trace w1 @ e2" "set e2 \<subseteq> ?S"
      by (auto simp: getTime_def)
    have t2: "trace w2 = trace w @ (e1 @ e2)" "set (e1 @ e2) \<subseteq> ?S"
      using e1 e2 by auto
    show ?thesis
    proof (cases r2)
      case (Inl e)
      then show ?thesis using a b r1 t2 by (auto simp: getRecordingStatus_def Let_def)
    next
      case (Inr res2)
      note r2 = this
      obtain r3 w3 where c: "getLatestPage E w2 = (r3, w3)" by (cases "getLatestPage E w2")
      from priv_readValue_events[OF char_uuid_of_keys(1), of E w2] c
      obtain e3 where e3: "trace w3 = trace w2 @ e3" "set e3 \<subseteq> ?S"
        by (auto simp: getLatestPage_def)
      have t3: "trace w3 = trace w @ (e1 @ e2 @ e3)" "set (e1 @ e2 @ e3) \<subseteq> ?S"
        using t2 e3 by auto
      have "snd (getRecordingStatus E w) = w2 \<or> snd (getRecordingStatus E w) = w3"
        using a b c r1 r2
        by (auto simp: getRecordingStatus_def Let_def split: sum.splits)
      then show ?thesis using t2 t3 by metis
    qed
  qed
qed

text \<open>
  C9. When the request passes the check of its page and the recording status resolves
  with \<^verbatim>\<open>isRecording\<close> false, \<^verbatim>\<open>getRecordedDataList\<close> rejects with
  \<^verbatim>\<open>'The data recording mode has not been started.'\<close> in the state the status left: all
  that has happened since the call are the reads of the status (the characteristics
  under 3042, 3031 and 3002), so no page request was written and neither the response
  flag nor the response data was read.
\<close>

theorem not_recording_rejects:
  assumes "page_param params = Inr p"
    and "getRecordingStatus E w = (Inr status, w1)"
    and "get_prop status ''isRecording'' = JBool False"
  shows "getRecordedDataList E params w = Some (Inl RecordingNotStarted, w1)
    \<and> filter is_write (new_events w w1) = []
    \<and> set (new_events w w1)
        \<subseteq> read_events E ''3042'' \<union> read_events E ''3031'' \<union> read_events E ''3002''"
proof -
  from getRecordingStatus_events[of E w] assms(2)
  obtain evs where evs: "trace w1 = trace w @ evs"
    and sub: "set evs \<subseteq> read_events E ''3042'' \<union> read_events E ''3031'' \<union> read_events E ''3002''"
    by auto
  have ne: "new_events w w1 = evs"
    by (rule new_events_append[OF evs])
  have "\<not> is_write ev" if "ev \<in> set evs" for ev
    using sub that by (auto simp: read_events_def split: option.splits)
  then have nw: "filter is_write evs = []"
    by (simp add: filter_empty_conv)
  have "getRecordedDataList E params w = Some (Inl RecordingNotStarted, w1)"
    using assms by (simp add: getRecordedDataList_def)
  with ne nw sub show ?thesis by simp
qed

theorem not_recording_rejects_witness:
  "getRecordedDataList demo_env (JObj [(''page'', JNum 5)])
     (start ([Reply [2, 0], Reply [100], Reply [100, 60, 5, 4], Reply [1, 100]], [Reply ()]))
   = Some (Inl RecordingNotStarted,
       \<lparr>tstate = ([Reply [1, 100]], [Reply ()]),
        trace = [TRead ''0c4c3042770046f4aa96d5e974e32a54'',
                 TRead ''0c4c3031770046f4aa96d5e974e32a54'',
                 TRead ''0c4c3002770046f4aa96d5e974e32a54'']\<rparr>)"
proof -
  let ?w = "start ([Reply [2, 0], Reply [100], Reply [100, 60, 5, 4], Reply [1, 100]], [Reply ()])"
  let ?w1 = "\<lparr>tstate = ([Reply [1, 100]], [Reply ()]),
        trace = [TRead ''0c4c3042770046f4aa96d5e974e32a54'',
                 TRead ''0c4c3031770046f4aa96d5e974e32a54'',
                 TRead ''0c4c3002770046f4aa96d5e974e32a54'']\<rparr>"
  let ?status = "[(''beaconMode'', JNum 2), (''isRecording'', JBool False), (''page'', JNum 5),
                  (''row'', JNum 4), (''measurementInterval'', JNum 60), (''unixTime'', JNum 100)]"
  have h1: "page_param (JObj [(''page'', JNum 5)]) = Inr (Some 5)"
    by code_simp
  have h2: "getRecordingStatus demo_env ?w = (Inr ?status, ?w1)"
    by code_simp
  have h3: "get_prop ?status ''isRecording'' = JBool False"
    by code_simp
  from not_recording_rejects[OF h1 h2 h3] show ?thesis by blast
qed

subsection \<open>The loop that drains the response data\<close>

lemma getData_fail:
  "getResponseData E w = (Inl e, w1) \<Longrightarrow> getData E acc w = Some (Inl e, w1)"
  by (subst getData.simps) simp

lemma getData_sentinel:
  "getResponseData E w = (Inr res, w1) \<Longrightarrow> js_gt (StringToNumber E) (get_prop res ''row'') 12 \<Longrightarrow>
   getData E acc w = Some (Inr acc, wait 10 w1)"
  by (subst getData.simps) simp

lemma getData_drains:
  "drains E rs w = Some w' \<Longrightarrow> getData E acc w = getData E (rev rs @ acc) w'"
proof (induction rs arbitrary: acc w)
  case Nil
  then show ?case by simp
next
  case (Cons r rs)
  obtain x w1 where rd: "getResponseData E w = (x, w1)" by (cases "getResponseData E w")
  with Cons.prems have x: "x = Inr r" and low: "\<not> js_gt (StringToNumber E) (get_prop r ''row'') 12"
    and rest: "drains E rs (wait 10 w1) = Some w'"
    by (auto split: sum.splits if_splits)
  have "getData E acc w = getData E (r # acc) (wait 10 w1)"
    using rd x low by (subst getData.simps) simp
  also have "\<dots> = getData E (rev rs @ r # acc) w'"
    by (rule Cons.IH[OF rest])
  finally show ?case by simp
qed

lemma drains_snoc:
  "drains E (rs @ [r]) w = Some w' \<longleftrightarrow>
   (\<exists>w3 w1. drains E rs w = Some w3 \<and> getResponseData E w3 = (Inr r, w1)
      \<and> \<not> js_gt (StringToNumber E) (get_prop r ''row'') 12 \<and> w' = wait 10 w1)"
proof (induction rs arbitrary: w)
  case Nil
  show ?case
    by (cases "getResponseData E w") (auto split: sum.splits)
next
  case (Cons x rs)
  obtain y w1 where rd: "getResponseData E w = (y, w1)" by (cases "getResponseData E w")
  show ?case
  proof (cases "y = Inr x \<and> \<not> js_gt (StringToNumber E) (get_prop x ''row'') 12")
    case True
    then show ?thesis using rd Cons.IH[of "wait 10 w1"] by simp
  next
    case False
    then show ?thesis using rd by (auto split: sum.splits)
  qed
qed

text \<open>A list that the loop returns is never cut short: the rows in it are all the rows
  read, and the read after them returned a row above 12.\<close>

lemma getData_returns_all:
  fixes E :: "'s env"
  assumes "getData E acc w = Some y"
  shows "\<forall>rows w'. y = (Inr rows, w') \<longrightarrow>
      (\<exists>ds w3 final w4. drains E ds w = Some w3 \<and> getResponseData E w3 = (Inr final, w4)
          \<and> js_gt (StringToNumber E) (get_prop final ''row'') 12
          \<and> rows = rev ds @ acc \<and> w' = wait 10 w4)"
proof -
  let ?P = "\<lambda>E acc w y. \<forall>rows w'. y = (Inr rows, w') \<longrightarrow>
      (\<exists>ds w3 final w4. drains E ds w = Some w3 \<and> getResponseData E w3 = (Inr final, w4)
          \<and> js_gt (StringToNumber E) (get_prop final ''row'') 12
          \<and> rows = rev ds @ acc \<and> w' = wait 10 w4)"
  have "?P E acc w y"
  proof (rule getData.raw_induct[where P = ?P, OF _ assms])
    fix g :: "'s env \<Rightarrow> jsobj list \<Rightarrow> 's world \<Rightarrow> ((error + jsobj list) \<times> 's world) option"
    fix E acc w y
    assume IH: "\<And>E acc w y. g E acc w = Some y \<Longrightarrow> ?P E acc w y"
    assume step: "(case getResponseData E w of
        (Inl e, w1) \<Rightarrow> Some (Inl e, w1)
      | (Inr res, w1) \<Rightarrow>
          if js_gt (StringToNumber E) (get_prop res ''row'') 12
          then Some (Inr acc, wait 10 w1)
          else g E (res # acc) (wait 10 w1)) = Some y"
    obtain x w1 where rd: "getResponseData E w = (x, w1)" by (cases "getResponseData E w")
    show "?P E acc w y"
    proof (cases x)
      case (Inl e)
      with step rd show ?thesis by auto
    next
      case (Inr res)
      show ?thesis
      proof (cases "js_gt (StringToNumber E) (get_prop res ''row'') 12")
        case True
        with step rd Inr have y: "y = (Inr acc, wait 10 w1)" by auto
        have "drains E [] w = Some w" by simp
        with y rd Inr True show ?thesis by (intro allI impI) (rule exI[of _ "[]"], auto)
      next
        case False
        with step rd Inr have rec: "g E (res # acc) (wait 10 w1) = Some y" by auto
        show ?thesis
        proof (intro allI impI)
          fix rows w' assume y: "y = (Inr rows, w')"
          from IH[OF rec] y obtain ds w3 final w4 where
            d: "drains E ds (wait 10 w1) = Some w3" and f: "getResponseData E w3 = (Inr final, w4)"
            and s: "js_gt (StringToNumber E) (get_prop final ''row'') 12"
            and r: "rows = rev ds @ res # acc" and w: "w' = wait 10 w4"
            by blast
          have "drains E (res # ds) w = Some w3"
            using rd Inr False d by simp
          with f s r w show "\<exists>ds w3 final w4. drains E ds w = Some w3
              \<and> getResponseData E w3 = (Inr final, w4)
              \<and> js_gt (StringToNumber E) (get_prop final ''row'') 12
              \<and> rows = rev ds @ acc \<and> w' = wait 10 w4"
            by (intro exI[of _ "res # ds"] exI[of _ w3] exI[of _ final] exI[of _ w4]) simp
        qed
      qed
    qed
  qed
  then show ?thesis .
qed

text \<open>
  C7. A failure in any step of \<^verbatim>\<open>_getRecordedDataListFromPages\<close> ends the retrieval with
  that error and nothing else: a failed write of the request page, a failed read of
  the response flag, a response flag other than 1, and a failed read of the response
  data after any number of rows were read, whatever they were. A list is returned only
  when every step succeeded and the reads ended at a row above 12, and it then holds
  every row read. \<^verbatim>\<open>getRecordedDataList\<close> passes the error on unchanged.
\<close>

theorem retrieval_failure_aborts:
  assumes "req = JObj [(''page'', get_prop p ''page''), (''row'', get_prop p ''row'')]"
  shows "(\<forall>e w1. setRequestPage E req w = (Inl e, w1)
            \<longrightarrow> getRecordedDataListFromPages E p w = Some (Inl e, w1))
    \<and> (\<forall>w1 e w2. setRequestPage E req w = (Inr (), w1)
            \<and> getResponseFlag E (wait 200 w1) = (Inl e, w2)
            \<longrightarrow> getRecordedDataListFromPages E p w = Some (Inl e, w2))
    \<and> (\<forall>w1 flag w2. setRequestPage E req w = (Inr (), w1)
            \<and> getResponseFlag E (wait 200 w1) = (Inr flag, w2)
            \<and> get_prop flag ''updateFlag'' \<noteq> JNum 1
            \<longrightarrow> getRecordedDataListFromPages E p w
                  = Some (Inl (RequestPageFailed (get_prop flag ''updateFlag'')), w2))
    \<and> (\<forall>w1 flag w2 ds w3 e w4. setRequestPage E req w = (Inr (), w1)
            \<and> getResponseFlag E (wait 200 w1) = (Inr flag, w2)
            \<and> get_prop flag ''updateFlag'' = JNum 1
            \<and> drains E ds (wait 100 w2) = Some w3
            \<and> getResponseData E w3 = (Inl e, w4)
            \<longrightarrow> getRecordedDataListFromPages E p w = Some (Inl e, w4))
    \<and> (\<forall>rows w'. getRecordedDataListFromPages E p w = Some (Inr rows, w')
            \<longrightarrow> (\<exists>w1 flag w2 ds w3 final w4.
                  setRequestPage E req w = (Inr (), w1)
                  \<and> getResponseFlag E (wait 200 w1) = (Inr flag, w2)
                  \<and> get_prop flag ''updateFlag'' = JNum 1
                  \<and> drains E ds (wait 100 w2) = Some w3
                  \<and> getResponseData E w3 = (Inr final, w4)
                  \<and> js_gt (StringToNumber E) (get_prop final ''row'') 12
                  \<and> rows = stamp_rows E (get_prop flag ''unixTime'') (get_prop p ''interval'')
                             (rev ds)
                  \<and> w' = wait 10 w4))
    \<and> (\<forall>tp status wa wb e w'. page_param params = Inr tp
            \<and> getRecordingStatus E w0 = (Inr status, wa)
            \<and> get_prop status ''isRecording'' \<noteq> JBool False
            \<and> getTargetPageAndRow E tp wa = (Inr p, wb)
            \<and> getRecordedDataListFromPages E p wb = Some (Inl e, w')
            \<longrightarrow> getRecordedDataList E params w0 = Some (Inl e, w'))"
proof (intro conjI allI impI)
  fix e w1 assume "setRequestPage E req w = (Inl e, w1)"
  then show "getRecordedDataListFromPages E p w = Some (Inl e, w1)"
    using assms by (simp add: getRecordedDataListFromPages_def Let_def)
next
  fix w1 e w2
  assume "setRequestPage E req w = (Inr (), w1) \<and> getResponseFlag E (wait 200 w1) = (Inl e, w2)"
  then show "getRecordedDataListFromPages E p w = Some (Inl e, w2)"
    using assms by (simp add: getRecordedDataListFromPages_def Let_def)
next
  fix w1 flag w2
  assume "setRequestPage E req w = (Inr (), w1)
            \<and> getResponseFlag E (wait 200 w1) = (Inr flag, w2)
            \<and> get_prop flag ''updateFlag'' \<noteq> JNum 1"
  then show "getRecordedDataListFromPages E p w
                  = Some (Inl (RequestPageFailed (get_prop flag ''updateFlag'')), w2)"
    using assms by (simp add: getRecordedDataListFromPages_def Let_def)
next
  fix w1 flag w2 ds w3 e w4
  assume a: "setRequestPage E req w = (Inr (), w1)
            \<and> getResponseFlag E (wait 200 w1) = (Inr flag, w2)
            \<and> get_prop flag ''updateFlag'' = JNum 1
            \<and> drains E ds (wait 100 w2) = Some w3
            \<and> getResponseData E w3 = (Inl e, w4)"
  then have "getData E [] (wait 100 w2) = getData E (rev ds @ []) w3"
    by (intro getData_drains) simp
  also have "\<dots> = Some (Inl e, w4)"
    using a by (intro getData_fail) simp
  finally show "getRecordedDataListFromPages E p w = Some (Inl e, w4)"
    using assms a
    by (simp add: getRecordedDataListFromPages_def getRecordedSensorDataListFromCurrentPage_def Let_def)
next
  fix rows w'
  assume r: "getRecordedDataListFromPages E p w = Some (Inr rows, w')"
  obtain x w1 where s: "setRequestPage E req w = (x, w1)" by (cases "setRequestPage E req w")
  with r assms have x: "x = Inr ()"
    by (cases x) (auto simp: getRecordedDataListFromPages_def Let_def)
  obtain y w2 where f: "getResponseFlag E (wait 200 w1) = (y, w2)"
    by (cases "getResponseFlag E (wait 200 w1)")
  with r s x assms obtain flag where y: "y = Inr flag"
    by (cases y) (auto simp: getRecordedDataListFromPages_def Let_def)
  have uf: "get_prop flag ''updateFlag'' = JNum 1"
    using r s x f y assms
    by (auto simp: getRecordedDataListFromPages_def Let_def split: if_splits)
  from r s x f y uf assms obtain data_list where
    g: "getData E [] (wait 100 w2) = Some (Inr data_list, w')"
    and rows: "rows = stamp_rows E (get_prop flag ''unixTime'') (get_prop p ''interval'') data_list"
    by (auto simp: getRecordedDataListFromPages_def getRecordedSensorDataListFromCurrentPage_def
          Let_def split: option.splits sum.splits)
  from getData_returns_all[OF g] obtain ds w3 final w4 where
    "drains E ds (wait 100 w2) = Some w3" "getResponseData E w3 = (Inr final, w4)"
    "js_gt (StringToNumber E) (get_prop final ''row'') 12" "data_list = rev ds @ []" "w' = wait 10 w4"
    by blast
  with s x f y uf rows
  show "\<exists>w1 flag w2 ds w3 final w4.
                  setRequestPage E req w = (Inr (), w1)
                  \<and> getResponseFlag E (wait 200 w1) = (Inr flag, w2)
                  \<and> get_prop flag ''updateFlag'' = JNum 1
                  \<and> drains E ds (wait 100 w2) = Some w3
                  \<and> getResponseData E w3 = (Inr final, w4)
                  \<and> js_gt (StringToNumber E) (get_prop final ''row'') 12
                  \<and> rows = stamp_rows E (get_prop flag ''unixTime'') (get_prop p ''interval'')
                             (rev ds)
                  \<and> w' = wait 10 w4"
    by (intro exI[of _ w1] exI[of _ flag] exI[of _ w2] exI[of _ ds] exI[of _ w3]
          exI[of _ final] exI[of _ w4]) simp
next
  fix tp status wa wb e w'
  assume "page_param params = Inr tp
            \<and> getRecordingStatus E w0 = (Inr status, wa)
            \<and> get_prop status ''isRecording'' \<noteq> JBool False
            \<and> getTargetPageAndRow E tp wa = (Inr p, wb)
            \<and> getRecordedDataListFromPages E p wb = Some (Inl e, w')"
  then show "getRecordedDataList E params w0 = Some (Inl e, w')"
    by (simp add: getRecordedDataList_def)
qed
theorem retrieval_failure_aborts_witness:
  "map_option fst (getRecordedDataListFromPages demo_env
       [(''page'', JNum 5), (''row'', JNum 12), (''interval'', JNum 60)]
       (start ([Reply [0, 0], Reply [1, 100], Reply [12, 32], Reply [11, 31],
                Fail (OtherError ''disconnected'')], [Reply ()])))
     = Some (Inl (OtherError ''disconnected''))
   \<and> map_option fst (getRecordedDataListFromPages demo_env
       [(''page'', JNum 5), (''row'', JNum 12), (''interval'', JNum 60)]
       (start ([Reply [0, 0], Reply [0, 100], Reply [12, 32]], [Reply ()])))
     = Some (Inl (RequestPageFailed (JNum 0)))
   \<and> map_option fst (getRecordedDataListFromPages demo_env
       [(''page'', JNum 5), (''row'', JNum 12), (''interval'', JNum 60)]
       (start ([Reply [0, 0], Reply [1, 100]], [Fail (OtherError ''disconnected'')])))
     = Some (Inl (OtherError ''disconnected''))
   \<and> map_option fst (getRecordedDataListFromPages demo_env
       [(''page'', JNum 5), (''row'', JNum 12), (''interval'', JNum 60)]
       (start ([Reply [0, 0]], [Reply ()])))
     = Some (Inl Timeout)
   \<and> map_option fst (getRecordedDataList demo_env (JObj [])
       (start ([Reply [8, 0], Reply [100], Reply [100, 60, 5, 4], Reply [100, 60, 5, 4],
                Reply [0, 0], Reply [0, 100]], [Reply ()])))
     = Some (Inl (RequestPageFailed (JNum 0)))"
proof -
  let ?p = "[(''page'', JNum 5), (''row'', JNum 12), (''interval'', JNum 60)]"
  let ?req = "JObj [(''page'', JNum 5), (''row'', JNum 12)]"
  let ?e = "OtherError ''disconnected''"
  let ?t1 = "[TRead ''0c4c3003770046f4aa96d5e974e32a54'',
              TWrite ''0c4c3003770046f4aa96d5e974e32a54'' [5, 12] False]"
  let ?t2 = "?t1 @ [Timer 200, TRead ''0c4c3004770046f4aa96d5e974e32a54'']"
  let ?t3 = "?t2 @ [Timer 100, TRead ''0c4c3005770046f4aa96d5e974e32a54'', Timer 10,
                    TRead ''0c4c3005770046f4aa96d5e974e32a54'', Timer 10]"
  have req: "?req = JObj [(''page'', get_prop ?p ''page''), (''row'', get_prop ?p ''row'')]"
    by (simp add: get_prop_def)
  note T = retrieval_failure_aborts[OF req]
  let ?wA = "start ([Reply [0, 0], Reply [1, 100], Reply [12, 32], Reply [11, 31], Fail ?e], [Reply ()])"
  have hA: "setRequestPage demo_env ?req ?wA
        = (Inr (), \<lparr>tstate = ([Reply [1, 100], Reply [12, 32], Reply [11, 31], Fail ?e], []),
                    trace = ?t1\<rparr>)
      \<and> getResponseFlag demo_env
          (wait 200 \<lparr>tstate = ([Reply [1, 100], Reply [12, 32], Reply [11, 31], Fail ?e], []),
                     trace = ?t1\<rparr>)
        = (Inr [(''updateFlag'', JNum 1), (''unixTime'', JNum 100)],
           \<lparr>tstate = ([Reply [12, 32], Reply [11, 31], Fail ?e], []), trace = ?t2\<rparr>)
      \<and> get_prop [(''updateFlag'', JNum 1), (''unixTime'', JNum 100)] ''updateFlag'' = JNum 1
      \<and> drains demo_env [[(''row'', JNum 12), (''temperature'', JNum 32)],
                          [(''row'', JNum 11), (''temperature'', JNum 31)]]
          (wait 100 \<lparr>tstate = ([Reply [12, 32], Reply [11, 31], Fail ?e], []), trace = ?t2\<rparr>)
        = Some \<lparr>tstate = ([Fail ?e], []), trace = ?t3\<rparr>
      \<and> getResponseData demo_env \<lparr>tstate = ([Fail ?e], []), trace = ?t3\<rparr>
        = (Inl ?e, \<lparr>tstate = ([], []),
                    trace = ?t3 @ [TRead ''0c4c3005770046f4aa96d5e974e32a54'']\<rparr>)"
    by code_simp
  from T[of demo_env ?wA, THEN conjunct2, THEN conjunct2, THEN conjunct2, THEN conjunct1, rule_format, OF hA]
  have cA: "getRecordedDataListFromPages demo_env ?p ?wA
      = Some (Inl ?e, \<lparr>tstate = ([], []),
                       trace = ?t3 @ [TRead ''0c4c3005770046f4aa96d5e974e32a54'']\<rparr>)"
    by simp
  let ?wB = "start ([Reply [0, 0], Reply [0, 100], Reply [12, 32]], [Reply ()])"
  have hB: "setRequestPage demo_env ?req ?wB
        = (Inr (), \<lparr>tstate = ([Reply [0, 100], Reply [12, 32]], []), trace = ?t1\<rparr>)
      \<and> getResponseFlag demo_env
          (wait 200 \<lparr>tstate = ([Reply [0, 100], Reply [12, 32]], []), trace = ?t1\<rparr>)
        = (Inr [(''updateFlag'', JNum 0), (''unixTime'', JNum 100)],
           \<lparr>tstate = ([Reply [12, 32]], []), trace = ?t2\<rparr>)
      \<and> get_prop [(''updateFlag'', JNum 0), (''unixTime'', JNum 100)] ''updateFlag'' \<noteq> JNum 1"
    by code_simp
  from T[of demo_env ?wB, THEN conjunct2, THEN conjunct2, THEN conjunct1, rule_format, OF hB]
  have cB: "getRecordedDataListFromPages demo_env ?p ?wB
      = Some (Inl (RequestPageFailed
                (get_prop [(''updateFlag'', JNum 0), (''unixTime'', JNum 100)] ''updateFlag'')),
              \<lparr>tstate = ([Reply [12, 32]], []), trace = ?t2\<rparr>)"
    by simp
  let ?wC = "start ([Reply [0, 0], Reply [1, 100]], [Fail ?e])"
  have hC: "setRequestPage demo_env ?req ?wC
        = (Inl ?e, \<lparr>tstate = ([Reply [1, 100]], []), trace = ?t1\<rparr>)"
    by code_simp
  from T[of demo_env ?wC, THEN conjunct1, rule_format, OF hC]
  have cC: "getRecordedDataListFromPages demo_env ?p ?wC
      = Some (Inl ?e, \<lparr>tstate = ([Reply [1, 100]], []), trace = ?t1\<rparr>)"
    by simp
  let ?wD = "start ([Reply [0, 0]], [Reply ()])"
  let ?tD = "?t1 @ [Timer 200, TRead ''0c4c3004770046f4aa96d5e974e32a54'', Timer 5000,
                    TRead ''0c4c3004770046f4aa96d5e974e32a54'', Timer 5000,
                    TRead ''0c4c3004770046f4aa96d5e974e32a54'', Timer 5000]"
  have hD: "setRequestPage demo_env ?req ?wD = (Inr (), \<lparr>tstate = ([], []), trace = ?t1\<rparr>)
      \<and> getResponseFlag demo_env (wait 200 \<lparr>tstate = ([], []), trace = ?t1\<rparr>)
        = (Inl Timeout, \<lparr>tstate = ([], []), trace = ?tD\<rparr>)"
    by code_simp
  from T[of demo_env ?wD, THEN conjunct2, THEN conjunct1, rule_format, OF hD]
  have cD: "getRecordedDataListFromPages demo_env ?p ?wD
      = Some (Inl Timeout, \<lparr>tstate = ([], []), trace = ?tD\<rparr>)"
    by simp
  let ?wF = "start ([Reply [8, 0], Reply [100], Reply [100, 60, 5, 4], Reply [100, 60, 5, 4],
                Reply [0, 0], Reply [0, 100]], [Reply ()])"
  let ?tF = "[TRead ''0c4c3042770046f4aa96d5e974e32a54'', TRead ''0c4c3031770046f4aa96d5e974e32a54'',
              TRead ''0c4c3002770046f4aa96d5e974e32a54'']"
  let ?pF = "[(''page'', JNum 5), (''row'', JNum 4), (''interval'', JNum 60)]"
  let ?status = "[(''beaconMode'', JNum 8), (''isRecording'', JBool True), (''page'', JNum 5),
                  (''row'', JNum 4), (''measurementInterval'', JNum 60), (''unixTime'', JNum 100)]"
  let ?tG = "?tF @ [TRead ''0c4c3002770046f4aa96d5e974e32a54'',
                 TRead ''0c4c3003770046f4aa96d5e974e32a54'',
                 TWrite ''0c4c3003770046f4aa96d5e974e32a54'' [5, 4] False,
                 Timer 200, TRead ''0c4c3004770046f4aa96d5e974e32a54'']"
  have reqF: "JObj [(''page'', JNum 5), (''row'', JNum 4)]
      = JObj [(''page'', get_prop ?pF ''page''), (''row'', get_prop ?pF ''row'')]"
    by (simp add: get_prop_def)
  have hF: "page_param (JObj []) = Inr None
      \<and> getRecordingStatus demo_env ?wF
        = (Inr ?status,
           \<lparr>tstate = ([Reply [100, 60, 5, 4], Reply [0, 0], Reply [0, 100]], [Reply ()]),
            trace = ?tF\<rparr>)
      \<and> get_prop ?status ''isRecording'' \<noteq> JBool False
      \<and> getTargetPageAndRow demo_env None
           \<lparr>tstate = ([Reply [100, 60, 5, 4], Reply [0, 0], Reply [0, 100]], [Reply ()]),
            trace = ?tF\<rparr>
        = (Inr ?pF, \<lparr>tstate = ([Reply [0, 0], Reply [0, 100]], [Reply ()]),
                     trace = ?tF @ [TRead ''0c4c3002770046f4aa96d5e974e32a54'']\<rparr>)
      \<and> getRecordedDataListFromPages demo_env ?pF
           \<lparr>tstate = ([Reply [0, 0], Reply [0, 100]], [Reply ()]),
            trace = ?tF @ [TRead ''0c4c3002770046f4aa96d5e974e32a54'']\<rparr>
        = Some (Inl (RequestPageFailed (JNum 0)), \<lparr>tstate = ([], []), trace = ?tG\<rparr>)"
    by code_simp
  from retrieval_failure_aborts[OF reqF, of demo_env _ "JObj []" ?wF, THEN conjunct2, THEN conjunct2, THEN conjunct2, THEN conjunct2, THEN conjunct2, rule_format, OF hF]
  have cF: "getRecordedDataList demo_env (JObj []) ?wF
      = Some (Inl (RequestPageFailed (JNum 0)), \<lparr>tstate = ([], []), trace = ?tG\<rparr>)"
    by simp
  from cA cB cC cD cF show ?thesis
    by (simp add: get_prop_def)
qed

subsection \<open>The stamps of the rows\<close>

lemma map_of_set_prop: "map_of (set_prop kvs k v) = (map_of kvs)(k \<mapsto> v)"
  by (induction kvs) (auto simp: fun_eq_iff)

lemma get_prop_set_prop:
  "get_prop (set_prop kvs k v) k' = (if k' = k then v else get_prop kvs k')"
  by (simp add: get_prop_def map_of_set_prop)

lemma js_add_nums: "js_add stn (JNum a) (JNum b) = JNum (a + b)"
  by (simp add: js_add_def)

lemma length_stamp_rows: "length (stamp_rows E time interval ds) = length ds"
  by (induction ds arbitrary: time) simp_all

lemma stamp_rows_nth:
  "i < length ds \<Longrightarrow>
   stamp_rows E (JNum t) (JNum iv) ds ! i =
   set_prop (set_prop (ds ! i) ''unixTime'' (JNum (t + int i * iv))) ''timeStamp''
     (JStr (getTimeStampFromUnixTime E (JNum (t + int i * iv))))"
proof (induction ds arbitrary: t i)
  case Nil
  then show ?case by simp
next
  case (Cons d ds)
  show ?case
  proof (cases i)
    case 0
    then show ?thesis by simp
  next
    case (Suc j)
    with Cons.prems have "j < length ds" by simp
    from Cons.IH[OF this, of "t + iv"] Suc show ?thesis
      by (simp add: js_add_nums algebra_simps)
  qed
qed

lemma stamp_rows_unixTime:
  "map (\<lambda>d. get_prop d ''unixTime'') (stamp_rows E (JNum t) (JNum iv) ds) =
   map (\<lambda>i. JNum (t + int i * iv)) [0..<length ds]"
proof (rule nth_equalityI)
  show "length (map (\<lambda>d. get_prop d ''unixTime'') (stamp_rows E (JNum t) (JNum iv) ds)) =
        length (map (\<lambda>i. JNum (t + int i * iv)) [0..<length ds])"
    by (simp add: length_stamp_rows)
next
  fix i
  assume "i < length (map (\<lambda>d. get_prop d ''unixTime'') (stamp_rows E (JNum t) (JNum iv) ds))"
  then have i: "i < length ds" by (simp add: length_stamp_rows)
  then show "map (\<lambda>d. get_prop d ''unixTime'') (stamp_rows E (JNum t) (JNum iv) ds) ! i =
        map (\<lambda>i. JNum (t + int i * iv)) [0..<length ds] ! i"
    by (simp add: length_stamp_rows stamp_rows_nth get_prop_set_prop)
qed

lemma stamp_rows_other:
  assumes "k \<noteq> ''unixTime''" and "k \<noteq> ''timeStamp''"
  shows "map (\<lambda>d. get_prop d k) (stamp_rows E time interval ds) = map (\<lambda>d. get_prop d k) ds"
  using assms by (induction ds arbitrary: time) (simp_all add: get_prop_set_prop)

text \<open>
  C5. In the list a retrieval returns, the row at position \<open>i\<close> (counted from 0 in the
  ascending list) carries the unix time \<open>t + i * iv\<close>, where \<open>t\<close> is the unix time read with
  the response flag of that retrieval and \<open>iv\<close> the measurement interval of the request,
  both numbers. Its time stamp is the text \<^verbatim>\<open>_getTimeStampFromUnixTime\<close> makes of that unix
  time: for a valid local date the year, the month and the day joined by \<open>-\<close>, a \<open>T\<close>, the
  hours, minutes and seconds joined by \<open>:\<close>, and then \<open>Z\<close> when the local offset is zero
  and otherwise the sign (\<open>-\<close> west of Greenwich) with the hours and minutes of the
  offset.
\<close>

theorem rows_are_stamped:
  assumes "getRecordedDataListFromPages E p w = Some (Inr rows, w')"
    and "setRequestPage E (JObj [(''page'', get_prop p ''page''), (''row'', get_prop p ''row'')]) w
           = (x, w1)"
    and "getResponseFlag E (wait 200 w1) = (Inr flag, w2)"
    and "get_prop flag ''unixTime'' = JNum t"
    and "get_prop p ''interval'' = JNum iv"
    and "i < length rows"
  shows "get_prop (rows ! i) ''unixTime'' = JNum (t + int i * iv)
    \<and> get_prop (rows ! i) ''timeStamp''
        = JStr (getTimeStampFromUnixTime E (JNum (t + int i * iv)))
    \<and> (\<forall>dt. Date_local E ((t + int i * iv) * 1000) = Some dt
          \<longrightarrow> getTimeStampFromUnixTime E (JNum (t + int i * iv))
              = Number_toString 10 (fullYear dt) @ ''-'' @ pad2 (month dt + 1) @ ''-''
                @ pad2 (date dt) @ ''T'' @ pad2 (hours dt) @ '':'' @ pad2 (minutes dt) @ '':''
                @ pad2 (seconds dt)
                @ (if timezoneOffset dt = 0 then ''Z''
                   else (if timezoneOffset dt > 0 then ''-'' else ''+'')
                        @ pad2 (\<bar>timezoneOffset dt\<bar> div 60) @ '':''
                        @ pad2 (\<bar>timezoneOffset dt\<bar> mod 60)))"
proof -
  from assms(1,2,3,4,5) obtain ds where
    rows: "rows = stamp_rows E (JNum t) (JNum iv) ds"
    by (auto simp: getRecordedDataListFromPages_def Let_def
          split: sum.splits option.splits if_splits)
  from assms(6) rows have i: "i < length ds"
    by (simp add: length_stamp_rows)
  have stamp: "rows ! i =
      set_prop (set_prop (ds ! i) ''unixTime'' (JNum (t + int i * iv))) ''timeStamp''
        (JStr (getTimeStampFromUnixTime E (JNum (t + int i * iv))))"
    unfolding rows by (rule stamp_rows_nth[OF i])
  have fmt: "getTimeStampFromUnixTime E (JNum n)
      = Number_toString 10 (fullYear dt) @ ''-'' @ pad2 (month dt + 1) @ ''-''
        @ pad2 (date dt) @ ''T'' @ pad2 (hours dt) @ '':'' @ pad2 (minutes dt) @ '':''
        @ pad2 (seconds dt)
        @ (if timezoneOffset dt = 0 then ''Z''
           else (if timezoneOffset dt > 0 then ''-'' else ''+'')
                @ pad2 (\<bar>timezoneOffset dt\<bar> div 60) @ '':''
                @ pad2 (\<bar>timezoneOffset dt\<bar> mod 60))"
    if "Date_local E (n * 1000) = Some dt" for n dt
    using that by (simp add: getTimeStampFromUnixTime_def Let_def)
  show ?thesis
    using fmt by (simp add: stamp get_prop_set_prop)
qed
theorem rows_are_stamped_witness:
  "map_option fst (getRecordedDataListFromPages demo_env
       [(''page'', JNum 5), (''row'', JNum 12), (''interval'', JNum 60)]
       (start ([Reply [0, 0], Reply [1, 100], Reply [1, 21], Reply [0, 20], Reply [13, 33]],
               [Reply ()])))
     = Some (Inr [[(''row'', JNum 0), (''temperature'', JNum 20), (''unixTime'', JNum 100),
                   (''timeStamp'', JStr ''1970-01-01T09:01:40+09:00'')],
                  [(''row'', JNum 1), (''temperature'', JNum 21), (''unixTime'', JNum 160),
                   (''timeStamp'', JStr ''1970-01-01T09:02:40+09:00'')]])
   \<and> get_prop ([[(''row'', JNum 0), (''temperature'', JNum 20), (''unixTime'', JNum 100),
                   (''timeStamp'', JStr ''1970-01-01T09:01:40+09:00'')],
                  [(''row'', JNum 1), (''temperature'', JNum 21), (''unixTime'', JNum 160),
                   (''timeStamp'', JStr ''1970-01-01T09:02:40+09:00'')]] ! 1) ''unixTime''
       = JNum (100 + 1 * 60)
   \<and> getTimeStampFromUnixTime demo_env (JNum (100 + 1 * 60)) = ''1970-01-01T09:02:40+09:00''"
proof -
  let ?p = "[(''page'', JNum 5), (''row'', JNum 12), (''interval'', JNum 60)]"
  let ?w = "start ([Reply [0, 0], Reply [1, 100], Reply [1, 21], Reply [0, 20], Reply [13, 33]],
               [Reply ()])"
  let ?rows = "[[(''row'', JNum 0), (''temperature'', JNum 20), (''unixTime'', JNum 100),
                   (''timeStamp'', JStr ''1970-01-01T09:01:40+09:00'')],
                  [(''row'', JNum 1), (''temperature'', JNum 21), (''unixTime'', JNum 160),
                   (''timeStamp'', JStr ''1970-01-01T09:02:40+09:00'')]]"
  let ?t1 = "[TRead ''0c4c3003770046f4aa96d5e974e32a54'',
              TWrite ''0c4c3003770046f4aa96d5e974e32a54'' [5, 12] False]"
  let ?t2 = "?t1 @ [Timer 200, TRead ''0c4c3004770046f4aa96d5e974e32a54'']"
  let ?t3 = "?t2 @ [Timer 100, TRead ''0c4c3005770046f4aa96d5e974e32a54'', Timer 10,
                    TRead ''0c4c3005770046f4aa96d5e974e32a54'', Timer 10,
                    TRead ''0c4c3005770046f4aa96d5e974e32a54'', Timer 10]"
  let ?w1 = "\<lparr>tstate = ([Reply [1, 100], Reply [1, 21], Reply [0, 20], Reply [13, 33]], []),
             trace = ?t1\<rparr>"
  let ?flag = "[(''updateFlag'', JNum 1), (''unixTime'', JNum 100)]"
  let ?w2 = "\<lparr>tstate = ([Reply [1, 21], Reply [0, 20], Reply [13, 33]], []), trace = ?t2\<rparr>"
  let ?dt = "\<lparr>fullYear = 1970, month = 0, date = 1, hours = 9, minutes = 2, seconds = 40,
              timezoneOffset = - 540\<rparr>"
  have run: "getRecordedDataListFromPages demo_env ?p ?w
      = Some (Inr ?rows, \<lparr>tstate = ([], []), trace = ?t3\<rparr>)"
    by code_simp
  have h2: "setRequestPage demo_env
        (JObj [(''page'', get_prop ?p ''page''), (''row'', get_prop ?p ''row'')]) ?w = (Inr (), ?w1)"
    by code_simp
  have h3: "getResponseFlag demo_env (wait 200 ?w1) = (Inr ?flag, ?w2)"
    by code_simp
  have h4: "get_prop ?flag ''unixTime'' = JNum 100"
    by code_simp
  have h5: "get_prop ?p ''interval'' = JNum 60"
    by code_simp
  have h6: "1 < length ?rows"
    by simp
  have h7: "Date_local demo_env ((100 + int 1 * 60) * 1000) = Some ?dt"
    by code_simp
  have fmt: "Number_toString 10 (fullYear ?dt) @ ''-'' @ pad2 (month ?dt + 1) @ ''-''
                @ pad2 (date ?dt) @ ''T'' @ pad2 (hours ?dt) @ '':'' @ pad2 (minutes ?dt) @ '':''
                @ pad2 (seconds ?dt)
                @ (if timezoneOffset ?dt = 0 then ''Z''
                   else (if timezoneOffset ?dt > 0 then ''-'' else ''+'')
                        @ pad2 (\<bar>timezoneOffset ?dt\<bar> div 60) @ '':''
                        @ pad2 (\<bar>timezoneOffset ?dt\<bar> mod 60))
             = ''1970-01-01T09:02:40+09:00''"
    by code_simp
  note T = rows_are_stamped[OF run h2 h3 h4 h5 h6]
  from T have c1: "get_prop (?rows ! 1) ''unixTime'' = JNum (100 + int 1 * 60)"
    by (rule conjunct1)
  from T[THEN conjunct2, THEN conjunct2, rule_format, OF h7] fmt
  have c2: "getTimeStampFromUnixTime demo_env (JNum (100 + int 1 * 60)) = ''1970-01-01T09:02:40+09:00''"
    by simp
  from run c1 c2 show ?thesis
    by simp
qed

text \<open>
  C2, as the code has it. When the request is written, the response flag is ready, and
  the reads of the response data return the rows 12, 11, ..., 0 and then a row 13, the
  retrieval ends at that row and returns 13 rows, one for each of the row numbers 0 to
  12, in ascending order; their unix times start at the unix time read with the response
  flag and grow by the measurement interval from one row to the next.
\<close>

theorem full_page_retrieval:
  assumes "setRequestPage E (JObj [(''page'', get_prop p ''page''), (''row'', get_prop p ''row'')]) w
             = (Inr (), w1)"
    and "getResponseFlag E (wait 200 w1) = (Inr flag, w2)"
    and "get_prop flag ''updateFlag'' = JNum 1"
    and "get_prop flag ''unixTime'' = JNum t"
    and "get_prop p ''interval'' = JNum iv"
    and "drains E ds (wait 100 w2) = Some w3"
    and "map (\<lambda>d. get_prop d ''row'') ds
           = map JNum [12, 11, 10, 9, 8, 7, 6, 5, 4, 3, 2, 1, 0]"
    and "getResponseData E w3 = (Inr final, w4)"
    and "get_prop final ''row'' = JNum 13"
  shows "\<exists>rows. getRecordedDataListFromPages E p w = Some (Inr rows, wait 10 w4)
    \<and> length rows = 13
    \<and> map (\<lambda>d. get_prop d ''row'') rows = map JNum [0, 1, 2, 3, 4, 5, 6, 7, 8, 9, 10, 11, 12]
    \<and> map (\<lambda>d. get_prop d ''unixTime'') rows
        = map (\<lambda>i. JNum (t + i * iv)) [0, 1, 2, 3, 4, 5, 6, 7, 8, 9, 10, 11, 12]"
proof -
  let ?rows = "stamp_rows E (JNum t) (JNum iv) (rev ds)"
  have sentinel: "js_gt (StringToNumber E) (get_prop final ''row'') 12"
    using assms(9) by (simp add: js_gt_def)
  have "getData E [] (wait 100 w2) = getData E (rev ds @ []) w3"
    by (rule getData_drains[OF assms(6)])
  also have "\<dots> = Some (Inr (rev ds @ []), wait 10 w4)"
    by (rule getData_sentinel[OF assms(8) sentinel])
  finally have run: "getRecordedDataListFromPages E p w = Some (Inr ?rows, wait 10 w4)"
    using assms(1-5)
    by (simp add: getRecordedDataListFromPages_def getRecordedSensorDataListFromCurrentPage_def
          Let_def)
  have "length (map (\<lambda>d. get_prop d ''row'') ds) = 13"
    unfolding assms(7) by simp
  then have len: "length ds = 13" by simp
  have "map (\<lambda>d. get_prop d ''row'') ?rows = map (\<lambda>d. get_prop d ''row'') (rev ds)"
    by (rule stamp_rows_other) simp_all
  also have "\<dots> = rev (map (\<lambda>d. get_prop d ''row'') ds)"
    by (simp add: rev_map)
  finally have rws: "map (\<lambda>d. get_prop d ''row'') ?rows
      = map JNum [0, 1, 2, 3, 4, 5, 6, 7, 8, 9, 10, 11, 12]"
    unfolding assms(7) by simp
  have upt: "[0..<13] = [0, 1, 2, 3, 4, 5, 6, 7, 8, 9, 10, 11, 12::nat]"
    by (simp add: upt_rec)
  have "map (\<lambda>d. get_prop d ''unixTime'') ?rows
      = map (\<lambda>i. JNum (t + int i * iv)) [0..<length (rev ds)]"
    by (rule stamp_rows_unixTime)
  then have times: "map (\<lambda>d. get_prop d ''unixTime'') ?rows
      = map (\<lambda>i. JNum (t + i * iv)) [0, 1, 2, 3, 4, 5, 6, 7, 8, 9, 10, 11, 12]"
    by (simp add: len upt)
  show ?thesis
    by (rule exI[of _ ?rows]) (simp add: run rws times length_stamp_rows len)
qed

text \<open>
  The scripted page of the claim: the request page is written, the response flag is
  ready with the unix time 100, and the response data comes back as the rows 12 down to
  0 followed by a row 13. The claim as it was stated expects 12 rows. The retrieval
  returns the 13 rows numbered 0 to 12.
\<close>

theorem full_page_has_13_rows_counterexample:
  "map_option fst (getRecordedDataListFromPages demo_env
       [(''page'', JNum 5), (''row'', JNum 12), (''interval'', JNum 60)]
       (start demo_page_script))
     = Some (Inr demo_page_rows)
   \<and> length demo_page_rows = 13
   \<and> length demo_page_rows \<noteq> 12"
  by code_simp

theorem full_page_retrieval_witness:
  "\<exists>rows. getRecordedDataListFromPages demo_env
       [(''page'', JNum 5), (''row'', JNum 12), (''interval'', JNum 60)]
       (start demo_page_script)
     = Some (Inr rows,
         \<lparr>tstate = ([], []),
          trace = [TRead ''0c4c3003770046f4aa96d5e974e32a54'',
                   TWrite ''0c4c3003770046f4aa96d5e974e32a54'' [5, 12] False,
                   Timer 200, TRead ''0c4c3004770046f4aa96d5e974e32a54'', Timer 100]
                  @ concat (replicate 14 [TRead ''0c4c3005770046f4aa96d5e974e32a54'', Timer 10])\<rparr>)
    \<and> length rows = 13
    \<and> map (\<lambda>d. get_prop d ''row'') rows = map JNum [0, 1, 2, 3, 4, 5, 6, 7, 8, 9, 10, 11, 12]
    \<and> map (\<lambda>d. get_prop d ''unixTime'') rows
        = map JNum [100, 160, 220, 280, 340, 400, 460, 520, 580, 640, 700, 760, 820]"
proof -
  let ?p = "[(''page'', JNum 5), (''row'', JNum 12), (''interval'', JNum 60)]"
  let ?t1 = "[TRead ''0c4c3003770046f4aa96d5e974e32a54'',
              TWrite ''0c4c3003770046f4aa96d5e974e32a54'' [5, 12] False]"
  let ?t2 = "?t1 @ [Timer 200, TRead ''0c4c3004770046f4aa96d5e974e32a54'']"
  let ?t3 = "?t2 @ [Timer 100]
             @ concat (replicate 13 [TRead ''0c4c3005770046f4aa96d5e974e32a54'', Timer 10])"
  let ?flag = "[(''updateFlag'', JNum 1), (''unixTime'', JNum 100)]"
  let ?ds = "map (\<lambda>r. [(''row'', JNum r), (''temperature'', JNum (20 + r))])
               [12, 11, 10, 9, 8, 7, 6, 5, 4, 3, 2, 1, 0]"
  let ?w1 = "\<lparr>tstate = (tl (fst demo_page_script), []), trace = ?t1\<rparr>"
  let ?w2 = "\<lparr>tstate = (tl (tl (fst demo_page_script)), []), trace = ?t2\<rparr>"
  let ?w3 = "\<lparr>tstate = ([Reply [13, 33]], []), trace = ?t3\<rparr>"
  let ?w4 = "\<lparr>tstate = ([], []), trace = ?t3 @ [TRead ''0c4c3005770046f4aa96d5e974e32a54'']\<rparr>"
  have h1: "setRequestPage demo_env
        (JObj [(''page'', get_prop ?p ''page''), (''row'', get_prop ?p ''row'')])
        (start demo_page_script) = (Inr (), ?w1)"
    by code_simp
  have h2: "getResponseFlag demo_env (wait 200 ?w1) = (Inr ?flag, ?w2)"
    by code_simp
  have h3: "get_prop ?flag ''updateFlag'' = JNum 1"
    by code_simp
  have h4: "get_prop ?flag ''unixTime'' = JNum 100"
    by code_simp
  have h5: "get_prop ?p ''interval'' = JNum 60"
    by code_simp
  have h6: "drains demo_env ?ds (wait 100 ?w2) = Some ?w3"
    by code_simp
  have h7: "map (\<lambda>d. get_prop d ''row'') ?ds
           = map JNum [12, 11, 10, 9, 8, 7, 6, 5, 4, 3, 2, 1, 0]"
    by (simp add: get_prop_def)
  have h8: "getResponseData demo_env ?w3 = (Inr [(''row'', JNum 13), (''temperature'', JNum 33)], ?w4)"
    by code_simp
  have h9: "get_prop [(''row'', JNum 13), (''temperature'', JNum 33)] ''row'' = JNum 13"
    by code_simp
  have w: "wait 10 ?w4 = \<lparr>tstate = (([], []) :: script),
          trace = [TRead ''0c4c3003770046f4aa96d5e974e32a54'',
                   TWrite ''0c4c3003770046f4aa96d5e974e32a54'' [5, 12] False,
                   Timer 200, TRead ''0c4c3004770046f4aa96d5e974e32a54'', Timer 100]
                  @ concat (replicate 14 [TRead ''0c4c3005770046f4aa96d5e974e32a54'', Timer 10])\<rparr>"
    by code_simp
  from full_page_retrieval[OF h1 h2 h3 h4 h5 h6 h7 h8 h9] show ?thesis
    unfolding w by simp
qed

section \<open>Properties of the identifiers\<close>

lemma upper_char_other: "c \<notin> set lower_letters \<Longrightarrow> upper_char c = c"
proof -
  assume "c \<notin> set lower_letters"
  moreover have "length lower_letters = length upper_letters"
    by (simp add: lower_letters_def upper_letters_def)
  ultimately have "map_of (zip lower_letters upper_letters) c = None"
    by (simp add: map_of_zip_is_None)
  then show ?thesis by (simp add: upper_char_def)
qed

lemma lower_char_other: "c \<notin> set upper_letters \<Longrightarrow> lower_char c = c"
proof -
  assume "c \<notin> set upper_letters"
  moreover have "length upper_letters = length lower_letters"
    by (simp add: lower_letters_def upper_letters_def)
  ultimately have "map_of (zip upper_letters lower_letters) c = None"
    by (simp add: map_of_zip_is_None)
  then show ?thesis by (simp add: lower_char_def)
qed

lemma lower_upper_char: "lower_char (upper_char c) = lower_char c"
proof (cases "c \<in> set lower_letters")
  case True
  have "list_all (\<lambda>c. lower_char (upper_char c) = lower_char c) lower_letters"
    by code_simp
  with True show ?thesis
    unfolding list_all_iff by blast
next
  case False
  then show ?thesis by (simp add: upper_char_other)
qed

lemma lower_lower_char: "lower_char (lower_char c) = lower_char c"
proof (cases "c \<in> set upper_letters")
  case True
  have "list_all (\<lambda>c. lower_char (lower_char c) = lower_char c) upper_letters"
    by code_simp
  with True show ?thesis
    unfolding list_all_iff by blast
next
  case False
  then show ?thesis by (simp add: lower_char_other)
qed

lemma lower_of_upper: "toLocaleLowerCase (toUpperCase s) = toLocaleLowerCase s"
  by (simp add: toLocaleLowerCase_def toUpperCase_def lower_upper_char)

lemma lower_of_lower: "toLocaleLowerCase (toLocaleLowerCase s) = toLocaleLowerCase s"
  by (simp add: toLocaleLowerCase_def lower_lower_char)

lemma lower_digit_char: "d < 16 \<Longrightarrow> lower_char (digit_char d) = digit_char d"
proof -
  assume "d < 16"
  then have "d \<in> set [0..<16]" by simp
  moreover have "list_all (\<lambda>d. lower_char (digit_char d) = digit_char d) [0..<16]"
    by code_simp
  ultimately show ?thesis
    unfolding list_all_iff by blast
qed

lemma lower_radix_digits: "map lower_char (radix_digits 16 n) = radix_digits 16 n"
proof (induction n rule: less_induct)
  case (less n)
  show ?case
  proof (cases "n < 16")
    case True
    then have "radix_digits 16 n = [digit_char n]"
      by (subst radix_digits.simps) simp
    with True show ?thesis by (simp add: lower_digit_char)
  next
    case False
    then have step: "radix_digits 16 n = radix_digits 16 (n div 16) @ [digit_char (n mod 16)]"
      by (subst radix_digits.simps) simp
    have "n div 16 < n" using False by simp
    then have "map lower_char (radix_digits 16 (n div 16)) = radix_digits 16 (n div 16)"
      by (rule less.IH)
    then show ?thesis
      unfolding step by (simp add: lower_digit_char)
  qed
qed

lemma lower_Number_toString:
  "toLocaleLowerCase (Number_toString 16 n) = Number_toString 16 n"
proof -
  have "lower_char CHR ''-'' = CHR ''-''"
    by code_simp
  then show ?thesis
    by (simp add: toLocaleLowerCase_def Number_toString_def lower_radix_digits)
qed

lemma hex_lower_fixed: "hex_lower c \<Longrightarrow> lower_char c = c"
proof -
  assume "hex_lower c"
  then have "c \<in> set ''0123456789abcdef''"
    unfolding hex_lower_def .
  moreover have "list_all (\<lambda>c. lower_char c = c) ''0123456789abcdef''"
    by code_simp
  ultimately show ?thesis
    unfolding list_all_iff by blast
qed

lemma priv_read_cong: "char_uuid_of i = char_uuid_of j \<Longrightarrow> priv_read E i w = priv_read E j w"
  by (simp add: priv_read_def)

lemma priv_write_cong:
  "char_uuid_of i = char_uuid_of j \<Longrightarrow> priv_write E i data wr w = priv_write E j data wr w"
  by (simp add: priv_write_def)

lemma fold_store_other:
  "k \<notin> (\<lambda>c. fst (init_char c)) ` set cs \<Longrightarrow> fold store_char cs tab k = tab k"
proof (induction cs arbitrary: tab)
  case Nil
  then show ?case by simp
next
  case (Cons a cs)
  have "fold store_char (a # cs) tab k = fold store_char cs (store_char a tab) k"
    by simp
  also have "\<dots> = store_char a tab k"
    using Cons.prems by (intro Cons.IH) simp
  also have "\<dots> = tab k"
    using Cons.prems by (cases "init_char a") (simp add: store_char_def)
  finally show ?case .
qed

lemma fold_init_lookup:
  assumes "distinct (map (\<lambda>c. fst (init_char c)) cs)" and "c \<in> set cs"
  shows "fold store_char cs tab (fst (init_char c)) = Some (snd (init_char c))"
  using assms
proof (induction cs arbitrary: tab)
  case Nil
  then show ?case by simp
next
  case (Cons a cs)
  show ?case
  proof (cases "c \<in> set cs")
    case True
    with Cons show ?thesis by simp
  next
    case False
    with Cons.prems have ca: "c = a" and nk: "fst (init_char a) \<notin> (\<lambda>c. fst (init_char c)) ` set cs"
      by auto
    have "fold store_char (a # cs) tab (fst (init_char a))
        = fold store_char cs (store_char a tab) (fst (init_char a))"
      by simp
    also have "\<dots> = store_char a tab (fst (init_char a))"
      by (rule fold_store_other[OF nk])
    also have "\<dots> = Some (snd (init_char a))"
      by (cases "init_char a") (simp add: store_char_def)
    finally show ?thesis
      using ca by simp
  qed
qed

lemma BASE_UUID_RE_Some:
  assumes "BASE_UUID_RE s = Some g"
  shows "s = ''0c4c'' @ g @ ''770046f4aa96d5e974e32a54''" and "length g = 4"
    and "list_all hex_lower g"
proof -
  from assms have len: "length s = 32" and pre: "take 4 s = ''0c4c''"
    and hex: "list_all hex_lower (take 4 (drop 4 s))"
    and post: "drop 8 s = ''770046f4aa96d5e974e32a54''"
    and g: "g = take 4 (drop 4 s)"
    by (auto simp: BASE_UUID_RE_def split: if_splits)
  have d: "drop 4 (drop 4 s) = ''770046f4aa96d5e974e32a54''"
    using post by simp
  have "s = take 4 s @ take 4 (drop 4 s) @ drop 4 (drop 4 s)"
    by (simp only: append_take_drop_id)
  also have "\<dots> = ''0c4c'' @ g @ ''770046f4aa96d5e974e32a54''"
    by (simp only: pre d g[symmetric])
  finally show "s = ''0c4c'' @ g @ ''770046f4aa96d5e974e32a54''" .
  show "length g = 4"
    using len g by simp
  show "list_all hex_lower g"
    using hex g by simp
qed

lemma lower_hex_string: "list_all hex_lower t \<Longrightarrow> toLocaleLowerCase t = t"
proof -
  assume "list_all hex_lower t"
  then have "map lower_char t = map (\<lambda>c. c) t"
    by (intro map_cong) (auto simp: list_all_iff hex_lower_fixed)
  then show ?thesis
    by (simp add: toLocaleLowerCase_def)
qed

lemma BASE_UUID_RE_lower:
  assumes "BASE_UUID_RE s = Some g"
  shows "toLocaleLowerCase s = s"
proof -
  have a: "list_all hex_lower ''0c4c''" and b: "list_all hex_lower ''770046f4aa96d5e974e32a54''"
    by (simp_all add: hex_lower_def)
  from BASE_UUID_RE_Some(3)[OF assms] a b
  have "list_all hex_lower (''0c4c'' @ g @ ''770046f4aa96d5e974e32a54'')"
    by (simp only: list_all_append)
  then have "list_all hex_lower s"
    by (simp only: BASE_UUID_RE_Some(1)[OF assms, symmetric])
  then show ?thesis
    by (rule lower_hex_string)
qed

lemma init_char_key_no_match: "BASE_UUID_RE (fst (init_char c)) = None"
proof (cases "BASE_UUID_RE (uuid c)")
  case None
  then show ?thesis by (simp add: init_char_def Let_def)
next
  case (Some g)
  then have k: "fst (init_char c) = g"
    by (simp add: init_char_def Let_def)
  from BASE_UUID_RE_Some(2)[OF Some] have "length g \<noteq> 32"
    by simp
  then have "BASE_UUID_RE g = None"
    by (simp add: BASE_UUID_RE_def)
  with k show ?thesis by simp
qed

lemma priv_init_keys:
  assumes "priv_init None char_list = Inr tab" and "tab k = Some ch"
  shows "BASE_UUID_RE k = None" and "\<exists>c \<in> set char_list. k = fst (init_char c)"
proof -
  from assms(1) have tab: "tab = fold store_char char_list (\<lambda>u. None)"
    by (simp add: priv_init_def)
  have "k \<in> (\<lambda>c. fst (init_char c)) ` set char_list"
  proof (rule ccontr)
    assume "k \<notin> (\<lambda>c. fst (init_char c)) ` set char_list"
    from fold_store_other[OF this, of "\<lambda>u. None"] tab assms(2) show False
      by simp
  qed
  then show ex: "\<exists>c \<in> set char_list. k = fst (init_char c)"
    by auto
  then show "BASE_UUID_RE k = None"
    using init_char_key_no_match by auto
qed

text \<open>
  C8. Identifiers are brought to their normal form in two places, and a long identifier
  is reduced to its four digits in the first only. When the table is built, a
  characteristic whose identifier matches the 128-bit pattern is stored under the four
  lower-case hexadecimal digits of its variable part (any other under its identifier as
  it is), and is found there; no key of the table matches the pattern. \<^verbatim>\<open>_read\<close> and
  \<^verbatim>\<open>_write\<close> look up the lower-case form of a string identifier and the hexadecimal form
  of a number, and nothing else: when the table has no entry there they fail with
  \<^verbatim>\<open>'Unknown characteristic'\<close>, otherwise they go on with the characteristic stored there
  and hand the same key to the codec. So an identifier, its upper-case form and its
  lower-case form behave alike, and so do a number and its hexadecimal text, while a
  long identifier that matches the pattern is unknown to \<^verbatim>\<open>_read\<close> and \<^verbatim>\<open>_write\<close>.
\<close>

theorem identifiers_normalised:
  "(\<forall>g. BASE_UUID_RE (uuid c) = Some g
        \<longrightarrow> fst (init_char c) = g \<and> length g = 4 \<and> list_all hex_lower g
            \<and> toLocaleLowerCase g = g
            \<and> uuid c = ''0c4c'' @ g @ ''770046f4aa96d5e974e32a54'')
   \<and> (BASE_UUID_RE (uuid c) = None \<longrightarrow> fst (init_char c) = uuid c)
   \<and> (\<forall>tab. priv_init None char_list = Inr tab
          \<and> distinct (map (\<lambda>c. fst (init_char c)) char_list) \<and> c \<in> set char_list
        \<longrightarrow> tab (fst (init_char c)) = Some (snd (init_char c)))
   \<and> char_uuid_of (JStr s) = Some (toLocaleLowerCase s)
   \<and> char_uuid_of (JNum n) = Some (Number_toString 16 n)
   \<and> priv_read E (JStr (toUpperCase s)) w = priv_read E (JStr s) w
   \<and> priv_read E (JStr (toLocaleLowerCase s)) w = priv_read E (JStr s) w
   \<and> priv_read E (JNum n) w = priv_read E (JStr (Number_toString 16 n)) w
   \<and> priv_write E (JStr (toUpperCase s)) data wr w = priv_write E (JStr s) data wr w
   \<and> priv_write E (JStr (toLocaleLowerCase s)) data wr w = priv_write E (JStr s) data wr w
   \<and> priv_write E (JNum n) data wr w = priv_write E (JStr (Number_toString 16 n)) data wr w
   \<and> (chars E (toLocaleLowerCase s) = None
        \<longrightarrow> priv_read E (JStr s) w = (Inl UnknownCharacteristic, w)
            \<and> priv_write E (JStr s) data wr w = (Inl UnknownCharacteristic, w))
   \<and> (\<forall>ch. chars E (toLocaleLowerCase s) = Some ch
        \<longrightarrow> priv_read E (JStr s) w = readData E (toLocaleLowerCase s) ch 0 w
            \<and> priv_write E (JStr s) data wr w
                = (case createWriteBuffer E (toLocaleLowerCase s) data of
                     None \<Rightarrow> (Inl WriteNotSupported, w)
                   | Some (Inl e) \<Rightarrow> (Inl e, w)
                   | Some (Inr buf) \<Rightarrow> writeData E ch buf wr 0 w))
   \<and> (chars E (Number_toString 16 n) = None
        \<longrightarrow> priv_read E (JNum n) w = (Inl UnknownCharacteristic, w)
            \<and> priv_write E (JNum n) data wr w = (Inl UnknownCharacteristic, w))
   \<and> (\<forall>ch. chars E (Number_toString 16 n) = Some ch
        \<longrightarrow> priv_read E (JNum n) w = readData E (Number_toString 16 n) ch 0 w
            \<and> priv_write E (JNum n) data wr w
                = (case createWriteBuffer E (Number_toString 16 n) data of
                     None \<Rightarrow> (Inl WriteNotSupported, w)
                   | Some (Inl e) \<Rightarrow> (Inl e, w)
                   | Some (Inr buf) \<Rightarrow> writeData E ch buf wr 0 w))
   \<and> (\<forall>ch buf st.
         chars E (toLocaleLowerCase s) = Some ch \<and> char_read E ch (tstate w) = (Reply buf, st)
         \<longrightarrow> priv_read E (JStr s) w
               = (case parseResponse E (toLocaleLowerCase s) buf of
                    Some parsed \<Rightarrow> Inr parsed
                  | None \<Rightarrow> Inl UnknownResponseData,
                  emit (TRead (uuid ch)) (w\<lparr>tstate := st\<rparr>)))
   \<and> (\<forall>ch buf st.
         chars E (toLocaleLowerCase s) = Some ch
         \<and> createWriteBuffer E (toLocaleLowerCase s) data = Some (Inr buf)
         \<and> char_write E ch buf wr (tstate w) = (Reply (), st)
         \<longrightarrow> priv_write E (JStr s) data wr w
               = (Inr (), emit (TWrite (uuid ch) buf wr) (w\<lparr>tstate := st\<rparr>)))
   \<and> (\<forall>tab k ch.
         priv_init None char_list = Inr tab \<and> tab k = Some ch
         \<longrightarrow> BASE_UUID_RE k = None \<and> (\<exists>c' \<in> set char_list. k = fst (init_char c')))
   \<and> (\<forall>g. priv_init None char_list = Inr (chars E) \<and> BASE_UUID_RE s = Some g
        \<longrightarrow> toLocaleLowerCase s = s
            \<and> priv_read E (JStr s) w = (Inl UnknownCharacteristic, w)
            \<and> priv_write E (JStr s) data wr w = (Inl UnknownCharacteristic, w))"
proof -
  have match: "fst (init_char c) = g \<and> length g = 4 \<and> list_all hex_lower g
            \<and> toLocaleLowerCase g = g
            \<and> uuid c = ''0c4c'' @ g @ ''770046f4aa96d5e974e32a54''"
    if m: "BASE_UUID_RE (uuid c) = Some g" for g
  proof -
    have k1: "fst (init_char c) = g"
      using m by (simp add: init_char_def Let_def)
    from k1 BASE_UUID_RE_Some[OF m] lower_hex_string[OF BASE_UUID_RE_Some(3)[OF m]]
    show ?thesis
      by blast
  qed
  have nomatch: "BASE_UUID_RE (uuid c) = None \<Longrightarrow> fst (init_char c) = uuid c"
    by (simp add: init_char_def Let_def)
  have table: "tab (fst (init_char c)) = Some (snd (init_char c))"
    if "priv_init None char_list = Inr tab"
      "distinct (map (\<lambda>c. fst (init_char c)) char_list)" "c \<in> set char_list" for tab
    using that(1) fold_init_lookup[OF that(2,3)] by (auto simp: priv_init_def)
  have up: "char_uuid_of (JStr (toUpperCase s)) = char_uuid_of (JStr s)"
    by (simp add: lower_of_upper)
  have lo: "char_uuid_of (JStr (toLocaleLowerCase s)) = char_uuid_of (JStr s)"
    by (simp add: lower_of_lower)
  have nu: "char_uuid_of (JNum n) = char_uuid_of (JStr (Number_toString 16 n))"
    by (simp add: lower_Number_toString)
  have f1: "\<forall>g. BASE_UUID_RE (uuid c) = Some g
        \<longrightarrow> fst (init_char c) = g \<and> length g = 4 \<and> list_all hex_lower g
            \<and> toLocaleLowerCase g = g
            \<and> uuid c = ''0c4c'' @ g @ ''770046f4aa96d5e974e32a54''"
    using match by blast
  have f2: "BASE_UUID_RE (uuid c) = None \<longrightarrow> fst (init_char c) = uuid c"
    using nomatch by blast
  have f3: "\<forall>tab. priv_init None char_list = Inr tab
          \<and> distinct (map (\<lambda>c. fst (init_char c)) char_list) \<and> c \<in> set char_list
        \<longrightarrow> tab (fst (init_char c)) = Some (snd (init_char c))"
    using table by blast
  have f4: "char_uuid_of (JStr s) = Some (toLocaleLowerCase s)"
    by simp
  have f5: "char_uuid_of (JNum n) = Some (Number_toString 16 n)"
    by simp
  note f6 = priv_read_cong[OF up, of E w]
  note f7 = priv_read_cong[OF lo, of E w]
  note f8 = priv_read_cong[OF nu, of E w]
  note f9 = priv_write_cong[OF up, of E data wr w]
  note f10 = priv_write_cong[OF lo, of E data wr w]
  note f11 = priv_write_cong[OF nu, of E data wr w]
  have f12: "chars E (toLocaleLowerCase s) = None
        \<longrightarrow> priv_read E (JStr s) w = (Inl UnknownCharacteristic, w)
            \<and> priv_write E (JStr s) data wr w = (Inl UnknownCharacteristic, w)"
    by (simp add: priv_read_def priv_write_def)
  have f13: "\<forall>ch. chars E (toLocaleLowerCase s) = Some ch
        \<longrightarrow> priv_read E (JStr s) w = readData E (toLocaleLowerCase s) ch 0 w
            \<and> priv_write E (JStr s) data wr w
                = (case createWriteBuffer E (toLocaleLowerCase s) data of
                     None \<Rightarrow> (Inl WriteNotSupported, w)
                   | Some (Inl e) \<Rightarrow> (Inl e, w)
                   | Some (Inr buf) \<Rightarrow> writeData E ch buf wr 0 w)"
    by (simp add: priv_read_def priv_write_def)
  have f14: "chars E (Number_toString 16 n) = None
        \<longrightarrow> priv_read E (JNum n) w = (Inl UnknownCharacteristic, w)
            \<and> priv_write E (JNum n) data wr w = (Inl UnknownCharacteristic, w)"
    by (simp add: priv_read_def priv_write_def)
  have f15: "\<forall>ch. chars E (Number_toString 16 n) = Some ch
        \<longrightarrow> priv_read E (JNum n) w = readData E (Number_toString 16 n) ch 0 w
            \<and> priv_write E (JNum n) data wr w
                = (case createWriteBuffer E (Number_toString 16 n) data of
                     None \<Rightarrow> (Inl WriteNotSupported, w)
                   | Some (Inl e) \<Rightarrow> (Inl e, w)
                   | Some (Inr buf) \<Rightarrow> writeData E ch buf wr 0 w)"
    by (simp add: priv_read_def priv_write_def)
  have f16: "\<forall>ch buf st.
         chars E (toLocaleLowerCase s) = Some ch \<and> char_read E ch (tstate w) = (Reply buf, st)
         \<longrightarrow> priv_read E (JStr s) w
               = (case parseResponse E (toLocaleLowerCase s) buf of
                    Some parsed \<Rightarrow> Inr parsed
                  | None \<Rightarrow> Inl UnknownResponseData,
                  emit (TRead (uuid ch)) (w\<lparr>tstate := st\<rparr>))"
  proof (intro allI impI)
    fix ch buf st
    assume a: "chars E (toLocaleLowerCase s) = Some ch
        \<and> char_read E ch (tstate w) = (Reply buf, st)"
    then have "readData E (toLocaleLowerCase s) ch 0 w
        = (case parseResponse E (toLocaleLowerCase s) buf of
             Some parsed \<Rightarrow> Inr parsed
           | None \<Rightarrow> Inl UnknownResponseData,
           emit (TRead (uuid ch)) (w\<lparr>tstate := st\<rparr>))"
      by (subst readData.simps) (simp add: Let_def split: option.splits)
    with a show "priv_read E (JStr s) w
        = (case parseResponse E (toLocaleLowerCase s) buf of
             Some parsed \<Rightarrow> Inr parsed
           | None \<Rightarrow> Inl UnknownResponseData,
           emit (TRead (uuid ch)) (w\<lparr>tstate := st\<rparr>))"
      by (simp add: priv_read_def)
  qed
  have f17: "\<forall>ch buf st.
         chars E (toLocaleLowerCase s) = Some ch
         \<and> createWriteBuffer E (toLocaleLowerCase s) data = Some (Inr buf)
         \<and> char_write E ch buf wr (tstate w) = (Reply (), st)
         \<longrightarrow> priv_write E (JStr s) data wr w
               = (Inr (), emit (TWrite (uuid ch) buf wr) (w\<lparr>tstate := st\<rparr>))"
  proof (intro allI impI)
    fix ch buf st
    assume a: "chars E (toLocaleLowerCase s) = Some ch
        \<and> createWriteBuffer E (toLocaleLowerCase s) data = Some (Inr buf)
        \<and> char_write E ch buf wr (tstate w) = (Reply (), st)"
    then have "writeData E ch buf wr 0 w
        = (Inr (), emit (TWrite (uuid ch) buf wr) (w\<lparr>tstate := st\<rparr>))"
      by (subst writeData.simps) (simp add: Let_def)
    with a show "priv_write E (JStr s) data wr w
        = (Inr (), emit (TWrite (uuid ch) buf wr) (w\<lparr>tstate := st\<rparr>))"
      by (simp add: priv_write_def)
  qed
  have f18: "\<forall>tab k ch.
         priv_init None char_list = Inr tab \<and> tab k = Some ch
         \<longrightarrow> BASE_UUID_RE k = None \<and> (\<exists>c' \<in> set char_list. k = fst (init_char c'))"
    using priv_init_keys by blast
  have f19: "\<forall>g. priv_init None char_list = Inr (chars E) \<and> BASE_UUID_RE s = Some g
        \<longrightarrow> toLocaleLowerCase s = s
            \<and> priv_read E (JStr s) w = (Inl UnknownCharacteristic, w)
            \<and> priv_write E (JStr s) data wr w = (Inl UnknownCharacteristic, w)"
  proof (intro allI impI)
    fix g
    assume a: "priv_init None char_list = Inr (chars E) \<and> BASE_UUID_RE s = Some g"
    then have low: "toLocaleLowerCase s = s"
      using BASE_UUID_RE_lower by blast
    have "chars E s = None"
    proof (cases "chars E s")
      case None
      then show ?thesis .
    next
      case (Some ch)
      with a priv_init_keys(1)[of char_list "chars E" s ch] show ?thesis
        by simp
    qed
    with low show "toLocaleLowerCase s = s
            \<and> priv_read E (JStr s) w = (Inl UnknownCharacteristic, w)
            \<and> priv_write E (JStr s) data wr w = (Inl UnknownCharacteristic, w)"
      by (simp add: priv_read_def priv_write_def)
  qed
  show ?thesis
    by (intro conjI) (rule f1 f2 f3 f4 f5 f6 f7 f8 f9 f10 f11 f12 f13 f14 f15 f16 f17 f18 f19)+
qed

theorem identifiers_normalised_witness:
  "fst (init_char \<lparr>uuid = ''0c4c301a770046f4aa96d5e974e32a54'', name = []\<rparr>) = ''301a''
   \<and> fst (init_char \<lparr>uuid = ''2a00'', name = []\<rparr>) = ''2a00''
   \<and> (\<exists>tab. priv_init None [\<lparr>uuid = ''0c4c301a770046f4aa96d5e974e32a54'', name = []\<rparr>,
                             \<lparr>uuid = ''2a00'', name = []\<rparr>] = Inr tab
         \<and> tab ''301a''
             = Some \<lparr>uuid = ''0c4c301a770046f4aa96d5e974e32a54'', name = ''Heat stroke''\<rparr>)
   \<and> priv_read demo_env (JStr ''301A'') (start ([Reply [1]], []))
       = priv_read demo_env (JStr ''301a'') (start ([Reply [1]], []))
   \<and> fst (priv_read demo_env (JStr ''301a'') (start ([Reply [1]], [])))
       = Inr [(''eventEnabled'', JNum 1)]
   \<and> priv_read demo_env (JNum 12314) (start ([Reply [1]], []))
       = priv_read demo_env (JStr ''301a'') (start ([Reply [1]], []))
   \<and> priv_write demo_env (JStr ''301A'') (JObj [(''eventEnabled'', JNum 0)]) False
         (start ([], [Reply ()]))
       = priv_write demo_env (JStr ''301a'') (JObj [(''eventEnabled'', JNum 0)]) False
         (start ([], [Reply ()]))
   \<and> priv_read demo_env (JStr ''30FF'') (start ([Reply [1]], []))
       = (Inl UnknownCharacteristic, start ([Reply [1]], []))
   \<and> priv_write demo_env (JStr ''30FF'') (JObj [(''eventEnabled'', JNum 0)]) False
         (start ([], [Reply ()]))
       = (Inl UnknownCharacteristic, start ([], [Reply ()]))
   \<and> priv_read demo_env (JNum 255) (start ([Reply [1]], []))
       = (Inl UnknownCharacteristic, start ([Reply [1]], []))
   \<and> priv_read demo_env (JStr ''301A'') (start ([Reply [1]], []))
       = readData demo_env ''301a''
           \<lparr>uuid = ''0c4c301a770046f4aa96d5e974e32a54'', name = ''Heat stroke''\<rparr> 0
           (start ([Reply [1]], []))
   \<and> priv_read demo_env (JStr ''301A'') (start ([Reply [1]], []))
       = (Inr [(''eventEnabled'', JNum 1)],
          \<lparr>tstate = ([], []), trace = [TRead ''0c4c301a770046f4aa96d5e974e32a54'']\<rparr>)
   \<and> priv_write demo_env (JStr ''301A'') (JObj [(''eventEnabled'', JNum 0)]) False
         (start ([], [Reply ()]))
       = (Inr (),
          \<lparr>tstate = ([], []),
            trace = [TWrite ''0c4c301a770046f4aa96d5e974e32a54'' [0] False]\<rparr>)
   \<and> BASE_UUID_RE ''301a'' = None
   \<and> priv_read demo_env (JStr ''0c4c301a770046f4aa96d5e974e32a54'') (start ([Reply [1]], []))
       = (Inl UnknownCharacteristic, start ([Reply [1]], []))
   \<and> priv_write demo_env (JStr ''0c4c301a770046f4aa96d5e974e32a54'')
         (JObj [(''eventEnabled'', JNum 0)]) False (start ([], [Reply ()]))
       = (Inl UnknownCharacteristic, start ([], [Reply ()]))"
proof -
  let ?c = "\<lparr>uuid = ''0c4c301a770046f4aa96d5e974e32a54'', name = []\<rparr>"
  let ?d = "\<lparr>uuid = ''2a00'', name = []\<rparr>"
  let ?ch = "\<lparr>uuid = ''0c4c301a770046f4aa96d5e974e32a54'', name = ''Heat stroke''\<rparr>"
  let ?cl = "[?c, ?d]"
  let ?w = "start ([Reply [1]], [])"
  let ?ww = "start ([], [Reply ()])"
  let ?data = "JObj [(''eventEnabled'', JNum 0)]"
  let ?tab = "fold store_char [?c, ?d] (\<lambda>u. None)"
  let ?long = "''0c4c301a770046f4aa96d5e974e32a54''"
  have m: "BASE_UUID_RE (uuid ?c) = Some ''301a''"
    by code_simp
  have nm: "BASE_UUID_RE (uuid ?d) = None"
    by code_simp
  have t1: "priv_init None ?cl = Inr ?tab"
    by (simp add: priv_init_def)
  have t2: "distinct (map (\<lambda>c. fst (init_char c)) ?cl) \<and> ?c \<in> set ?cl"
    by code_simp
  note t = conjI[OF t1 t2]
  have sc: "snd (init_char ?c) = ?ch"
    by code_simp
  have up: "toUpperCase ''301a'' = ''301A''"
    by (simp add: toUpperCase_def upper_char_def lower_letters_def upper_letters_def)
  have lc: "toLocaleLowerCase ''301A'' = ''301a''"
    by (simp add: toLocaleLowerCase_def lower_char_def lower_letters_def upper_letters_def)
  have lf: "toLocaleLowerCase ''30FF'' = ''30ff''"
    by (simp add: toLocaleLowerCase_def lower_char_def lower_letters_def upper_letters_def)
  have hx: "Number_toString 16 12314 = ''301a''"
    by (simp add: Number_toString_def radix_digits.simps digit_char_def)
  have hf: "Number_toString 16 255 = ''ff''"
    by (simp add: Number_toString_def radix_digits.simps digit_char_def)
  have rd: "fst (priv_read demo_env (JStr ''301a'') ?w) = Inr [(''eventEnabled'', JNum 1)]"
    by code_simp
  note T = identifiers_normalised[of ?c "[?c, ?d]" "''301a''" 12314 demo_env ?w ?data False]
  note T' = identifiers_normalised[of ?c "[?c, ?d]" "''301a''" 12314 demo_env ?ww ?data False]
  note U = identifiers_normalised[of ?c discovered "''301A''" 255 demo_env ?w ?data False]
  note U' = identifiers_normalised[of ?c discovered "''301A''" 255 demo_env ?ww ?data False]
  note V = identifiers_normalised[of ?c discovered "''30FF''" 255 demo_env ?w ?data False]
  note V' = identifiers_normalised[of ?c discovered "''30FF''" 255 demo_env ?ww ?data False]
  note L = identifiers_normalised[of ?c discovered ?long 255 demo_env ?w ?data False]
  note L' = identifiers_normalised[of ?c discovered ?long 255 demo_env ?ww ?data False]
  have c1: "fst (init_char ?c) = ''301a''"
    by (rule T[THEN conjunct1, rule_format, OF m, THEN conjunct1])
  have c2: "fst (init_char ?d) = ''2a00''"
    using identifiers_normalised[of ?d, THEN conjunct2, THEN conjunct1, rule_format, OF nm] by simp
  have "?tab (fst (init_char ?c)) = Some (snd (init_char ?c))"
    by (rule T[THEN conjunct2, THEN conjunct2, THEN conjunct1, rule_format, OF t])
  then have c3: "?tab ''301a'' = Some ?ch"
    by (simp only: c1 sc)
  have c4: "priv_read demo_env (JStr ''301A'') ?w = priv_read demo_env (JStr ''301a'') ?w"
    using T[THEN conjunct2, THEN conjunct2, THEN conjunct2, THEN conjunct2, THEN conjunct2, THEN conjunct1] by (simp only: up)
  have c5: "priv_read demo_env (JNum 12314) ?w = priv_read demo_env (JStr ''301a'') ?w"
    using T[THEN conjunct2, THEN conjunct2, THEN conjunct2, THEN conjunct2, THEN conjunct2, THEN conjunct2, THEN conjunct2, THEN conjunct1] by (simp only: hx)
  have c6: "priv_write demo_env (JStr ''301A'') ?data False ?ww
      = priv_write demo_env (JStr ''301a'') ?data False ?ww"
    using T'[THEN conjunct2, THEN conjunct2, THEN conjunct2, THEN conjunct2, THEN conjunct2, THEN conjunct2, THEN conjunct2, THEN conjunct2, THEN conjunct1] by (simp only: up)
  from t1 c3 have c3': "\<exists>tab. priv_init None ?cl = Inr tab \<and> tab ''301a'' = Some ?ch"
    by (intro exI[of _ ?tab] conjI)
  note R = conjunct2[OF conjunct2[OF conjunct2[OF conjunct2[OF conjunct2[OF conjunct2[OF
      conjunct2[OF conjunct2[OF conjunct2[OF conjunct2[OF conjunct2]]]]]]]]]]
  have n1: "chars demo_env (toLocaleLowerCase ''30FF'') = None"
    unfolding lf by code_simp
  have c7: "priv_read demo_env (JStr ''30FF'') ?w = (Inl UnknownCharacteristic, ?w)"
    by (rule R[OF V, THEN conjunct1, THEN mp, OF n1, THEN conjunct1])
  have c8: "priv_write demo_env (JStr ''30FF'') ?data False ?ww = (Inl UnknownCharacteristic, ?ww)"
    by (rule R[OF V', THEN conjunct1, THEN mp, OF n1, THEN conjunct2])
  have n2: "chars demo_env (Number_toString 16 255) = None"
    unfolding hf by code_simp
  have c9: "priv_read demo_env (JNum 255) ?w = (Inl UnknownCharacteristic, ?w)"
    by (rule R[OF V, THEN conjunct2, THEN conjunct2, THEN conjunct1, THEN mp, OF n2,
        THEN conjunct1])
  have s1: "chars demo_env (toLocaleLowerCase ''301A'') = Some ?ch"
    unfolding lc by code_simp
  have c10: "priv_read demo_env (JStr ''301A'') ?w = readData demo_env ''301a'' ?ch 0 ?w"
    using R[OF U, THEN conjunct2, THEN conjunct1, rule_format, OF s1, THEN conjunct1]
    by (simp only: lc)
  have s2: "chars demo_env (toLocaleLowerCase ''301A'') = Some ?ch
      \<and> char_read demo_env ?ch (tstate ?w) = (Reply [1], ([], []))"
    unfolding lc by code_simp
  have e2: "(case parseResponse demo_env ''301a'' [1] of
               Some parsed \<Rightarrow> Inr parsed
             | None \<Rightarrow> Inl UnknownResponseData,
             emit (TRead (uuid ?ch)) (?w\<lparr>tstate := ([], [])\<rparr>))
      = (Inr [(''eventEnabled'', JNum 1)],
         \<lparr>tstate = ([], []), trace = [TRead ''0c4c301a770046f4aa96d5e974e32a54'']\<rparr>)"
    by code_simp
  have c11: "priv_read demo_env (JStr ''301A'') ?w
      = (Inr [(''eventEnabled'', JNum 1)],
         \<lparr>tstate = ([], []), trace = [TRead ''0c4c301a770046f4aa96d5e974e32a54'']\<rparr>)"
    using R[OF U, THEN conjunct2, THEN conjunct2, THEN conjunct2, THEN conjunct2, THEN conjunct1,
        rule_format, OF s2]
    by (simp only: lc e2)
  have s3: "chars demo_env (toLocaleLowerCase ''301A'') = Some ?ch
      \<and> createWriteBuffer demo_env (toLocaleLowerCase ''301A'') ?data = Some (Inr [0])
      \<and> char_write demo_env ?ch [0] False (tstate ?ww) = (Reply (), ([], []))"
    unfolding lc by code_simp
  have e3: "(Inr (), emit (TWrite (uuid ?ch) [0] False) (?ww\<lparr>tstate := ([], [])\<rparr>))
      = (Inr () :: error + unit,
         \<lparr>tstate = ([], []) :: script,
           trace = [TWrite ''0c4c301a770046f4aa96d5e974e32a54'' [0] False]\<rparr>)"
    by code_simp
  have c12: "priv_write demo_env (JStr ''301A'') ?data False ?ww
      = (Inr (),
         \<lparr>tstate = ([], []), trace = [TWrite ''0c4c301a770046f4aa96d5e974e32a54'' [0] False]\<rparr>)"
    using R[OF U', THEN conjunct2, THEN conjunct2, THEN conjunct2, THEN conjunct2, THEN conjunct2,
        THEN conjunct1, rule_format, OF s3]
    by (simp only: e3)
  have s4: "priv_init None ?cl = Inr ?tab \<and> ?tab ''301a'' = Some ?ch"
    using t1 c3 by simp
  have c13: "BASE_UUID_RE ''301a'' = None"
    by (rule R[OF T, THEN conjunct2, THEN conjunct2, THEN conjunct2, THEN conjunct2,
        THEN conjunct2, THEN conjunct2, THEN conjunct1, rule_format, OF s4, THEN conjunct1])
  have i1: "priv_init None discovered = Inr (chars demo_env)"
    by (simp add: demo_env_def priv_init_def)
  have i2: "BASE_UUID_RE ?long = Some ''301a''"
    by code_simp
  note s5 = conjI[OF i1 i2]
  have c14: "priv_read demo_env (JStr ?long) ?w = (Inl UnknownCharacteristic, ?w)"
    by (rule R[OF L, THEN conjunct2, THEN conjunct2, THEN conjunct2, THEN conjunct2,
        THEN conjunct2, THEN conjunct2, THEN conjunct2, rule_format, OF s5,
        THEN conjunct2, THEN conjunct1])
  have c15: "priv_write demo_env (JStr ?long) ?data False ?ww = (Inl UnknownCharacteristic, ?ww)"
    by (rule R[OF L', THEN conjunct2, THEN conjunct2, THEN conjunct2, THEN conjunct2,
        THEN conjunct2, THEN conjunct2, THEN conjunct2, rule_format, OF s5,
        THEN conjunct2, THEN conjunct2])
  show ?thesis
    by (intro conjI) (rule c1 c2 c3' c4 rd c5 c6 c7 c8 c9 c10 c11 c12 c13 c14 c15)+
qed

theorem long_form_identifier_counterexample:
  "chars demo_env ''3011''
     = Some \<lparr>uuid = ''0c4c3011770046f4aa96d5e974e32a54'', name = ''Measurement interval''\<rparr>
   \<and> BASE_UUID_RE ''0c4c3011770046f4aa96d5e974e32a54'' = Some ''3011''
   \<and> priv_read demo_env (JStr ''3011'') (start ([Reply [60]], []))
       = (Inr [(''measurementInterval'', JNum 60)],
          \<lparr>tstate = ([], []), trace = [TRead ''0c4c3011770046f4aa96d5e974e32a54'']\<rparr>)
   \<and> priv_read demo_env (JStr ''0c4c3011770046f4aa96d5e974e32a54'') (start ([Reply [60]], []))
       = (Inl UnknownCharacteristic, start ([Reply [60]], []))
   \<and> priv_write demo_env (JStr ''0c4c3011770046f4aa96d5e974e32a54'')
         (JObj [(''measurementInterval'', JNum 60)]) False (start ([], [Reply ()]))
       = (Inl UnknownCharacteristic, start ([], [Reply ()]))"
  by code_simp

end
